theory Spec2Isabelle
  imports Main "HOL-Library.Word" "HOL-Library.AList"
begin

section \<open>Windows service manager: the data model\<close>

text \<open>
  \<^verbatim>\<open>svc.State\<close> and \<^verbatim>\<open>svc.Cmd\<close> of golang.org/x/sys/windows/svc are
  \<^verbatim>\<open>uint32\<close>; the constants are the ones of the Windows API.
\<close>

type_synonym svc_State = "32 word"
type_synonym svc_Cmd = "32 word"

definition Stopped :: svc_State where "Stopped = 1"
definition StartPending :: svc_State where "StartPending = 2"
definition StopPending :: svc_State where "StopPending = 3"
definition Running :: svc_State where "Running = 4"
definition ContinuePending :: svc_State where "ContinuePending = 5"
definition PausePending :: svc_State where "PausePending = 6"
definition Paused :: svc_State where "Paused = 7"

definition Stop :: svc_Cmd where "Stop = 1"

text \<open>\<^verbatim>\<open>svc.Status\<close>; only the field the manager reads.\<close>

record Status =
  State :: svc_State

text \<open>\<^verbatim>\<open>mgr.Config\<close>; the fields the managers read or write.\<close>

record Config =
  BinaryPathName :: string
  Dependencies :: "string list"

text \<open>
  A \<^verbatim>\<open>winsvc.Service\<close> interface value: a pointer to a \<^verbatim>\<open>FakeService\<close> (the address
  of the object), a \<^verbatim>\<open>*mgr.Service\<close> (its Windows handle), or a value of another
  implementing type. Pointers are never nil.
\<close>

datatype Service = FakePtr nat | MgrService nat | OtherService nat

text \<open>
  Errors are values. \<open>Errno\<close> is an error that a service handle or the operating
  system returned; the other constructors are the errors the managers build, a wrapped
  error keeping its cause.
\<close>

datatype error =
    Errno nat
  | ErrorQueryingServiceState error
  | ServiceIsNotCorrectType
  | ErrorFindingDependentServices error
  | ErrorOpeningDependentService string
  | UnableToStopDependentService string error
  | UnexpectedStateRequest svc_State
  | ServiceAlreadyExists
  | ServiceDoesNotExist
  | FailedToOpenService string error
  | FailedToStopService string error
  | FailedToDeleteService string error
  | UnexpectedEnumError error
  | TransitionTimeout
  | PanicIndexOutOfRange

text \<open>
  What a call does to the outside, in order: the requests made on service handles, and
  the entry and return of every \<^verbatim>\<open>EnsureServiceState\<close> call (with the error returned,
  \<open>None\<close> for nil), and a panic. The trace is an observation of the run, not data of
  the program.
\<close>

datatype event =
    EvQuery Service
  | EvStart Service
  | EvControl Service svc_Cmd
  | EvDelete Service
  | EvRemove string
  | EvEnter Service svc_State
  | EvExit Service svc_State "error option"
  | EvPanic

text \<open>
  The methods of a service handle (\<^verbatim>\<open>Query\<close>, \<^verbatim>\<open>Start\<close>, \<^verbatim>\<open>Control\<close>, \<^verbatim>\<open>Config\<close>,
  \<^verbatim>\<open>Delete\<close>, \<^verbatim>\<open>Close\<close>) are not defined in the two source files; the managers are
  modelled over any implementation of them, acting on a world \<open>'w\<close>. \<^verbatim>\<open>Query\<close> and
  \<^verbatim>\<open>Config\<close> read the world, the others may change it. The status that \<^verbatim>\<open>Control\<close>
  returns is dropped by every caller, so only its error is kept.
\<close>

record 'w svc_ops =
  Query :: "Service \<Rightarrow> 'w \<Rightarrow> error + Status"
  Start :: "Service \<Rightarrow> 'w \<Rightarrow> error option \<times> 'w"
  Control :: "Service \<Rightarrow> svc_Cmd \<Rightarrow> 'w \<Rightarrow> error option \<times> 'w"
  GetConfig :: "Service \<Rightarrow> 'w \<Rightarrow> error + Config"
  Delete :: "Service \<Rightarrow> 'w \<Rightarrow> error option \<times> 'w"
  Close :: "Service \<Rightarrow> 'w \<Rightarrow> 'w"

section \<open>The test double (pkg/daemon/fake/manager.go)\<close>

text \<open>
  The fields of \<^verbatim>\<open>FakeService\<close> that \<^verbatim>\<open>CreateService\<close> sets. The fourth one,
  \<^verbatim>\<open>serviceList\<close>, points back to the registry; every service of a manager holds the
  same pointer, so the world below stands for it.
\<close>

record FakeService =
  name :: string
  config :: Config
  status :: Status

text \<open>
  The world of the test double: \<open>svcs\<close> is the map of \<^verbatim>\<open>fakeServiceList\<close>, as an
  association list with distinct keys whose order is the order in which a \<^verbatim>\<open>range\<close>
  visits the map; \<open>objs\<close> is the store of \<^verbatim>\<open>FakeService\<close> objects by address and
  \<open>nextp\<close> the next unused address. The mutex is not modelled: every call runs alone.
\<close>

record testMgr =
  svcs :: "(string \<times> Service) list"
  objs :: "nat \<Rightarrow> FakeService"
  nextp :: nat

definition fsl_write :: "string \<Rightarrow> Service \<Rightarrow> testMgr \<Rightarrow> testMgr" where
  "fsl_write nm s t = t\<lparr>svcs := AList.update nm s (svcs t)\<rparr>"

definition fsl_read :: "string \<Rightarrow> testMgr \<Rightarrow> Service option" where
  "fsl_read nm t = map_of (svcs t) nm"

definition listServiceNames :: "testMgr \<Rightarrow> string list" where
  "listServiceNames t = map fst (svcs t)"

definition fsl_remove :: "string \<Rightarrow> testMgr \<Rightarrow> error option \<times> testMgr" where
  "fsl_remove nm t =
     (case map_of (svcs t) nm of
        None \<Rightarrow> (Some ServiceDoesNotExist, t)
      | Some _ \<Rightarrow> (None, t\<lparr>svcs := AList.delete nm (svcs t)\<rparr>))"

definition testMgr_CreateService ::
  "string \<Rightarrow> string \<Rightarrow> Config \<Rightarrow> string list \<Rightarrow> testMgr \<Rightarrow> (error + Service) \<times> testMgr" where
  "testMgr_CreateService nm exepath cfg args t =
     (case fsl_read nm t of
        Some _ \<Rightarrow> (Inl ServiceAlreadyExists, t)
      | None \<Rightarrow>
          (let cfg' = cfg\<lparr>BinaryPathName := exepath\<rparr>;
               service = \<lparr>name = nm, config = cfg', status = \<lparr>State = Stopped\<rparr>\<rparr>;
               p = nextp t;
               t' = t\<lparr>objs := (objs t)(p := service), nextp := Suc p\<rparr>
           in (Inr (FakePtr p), fsl_write nm (FakePtr p) t')))"

definition testMgr_GetServices :: "testMgr \<Rightarrow> error + string set" where
  "testMgr_GetServices t = Inr (set (listServiceNames t))"

definition testMgr_OpenService :: "string \<Rightarrow> testMgr \<Rightarrow> error + Service" where
  "testMgr_OpenService nm t =
     (case fsl_read nm t of None \<Rightarrow> Inl ServiceDoesNotExist | Some service \<Rightarrow> Inr service)"

text \<open>
  \<^verbatim>\<open>listDependentServices\<close>: the outer loop over the map entries, the inner loop over
  one entry's \<^verbatim>\<open>config.Dependencies\<close>.
\<close>

fun dependsOn :: "string \<Rightarrow> string \<Rightarrow> string list \<Rightarrow> string list" where
  "dependsOn nm serviceName [] = []"
| "dependsOn nm serviceName (s # ss) =
     (if s = serviceName then nm # dependsOn nm serviceName ss
      else dependsOn nm serviceName ss)"

fun listDependentLoop ::
  "testMgr svc_ops \<Rightarrow> string \<Rightarrow> testMgr \<Rightarrow> (string \<times> Service) list \<Rightarrow> string list
     \<Rightarrow> error + string list" where
  "listDependentLoop ops serviceName t [] dependencies = Inr dependencies"
| "listDependentLoop ops serviceName t ((nm, sv) # rest) dependencies =
     (if nm = serviceName then listDependentLoop ops serviceName t rest dependencies
      else (case GetConfig ops sv t of
              Inl err \<Rightarrow> Inl err
            | Inr cfg \<Rightarrow>
                listDependentLoop ops serviceName t rest
                  (dependencies @ dependsOn nm serviceName (Dependencies cfg))))"

definition testMgr_listDependentServices ::
  "testMgr svc_ops \<Rightarrow> string \<Rightarrow> testMgr \<Rightarrow> error + string list" where
  "testMgr_listDependentServices ops serviceName t =
     listDependentLoop ops serviceName t (svcs t) []"

text \<open>
  \<^verbatim>\<open>EnsureServiceState\<close> calls itself for every dependent, with nothing that bounds the
  depth, so the model takes fuel: the number of nested calls it may still open. \<open>None\<close>
  means that the fuel ran out, that is, that the recursion went deeper than the fuel.
  A call that returns gives the error (\<open>None\<close> for nil), the new world and the events
  of the call. \<open>stopDependents\<close> is the \<^verbatim>\<open>for\<close> loop over the dependent names.
\<close>

type_synonym 'w outcome = "(error option \<times> 'w \<times> event list) option"

fun testMgr_EnsureServiceState ::
  "nat \<Rightarrow> testMgr svc_ops \<Rightarrow> Service \<Rightarrow> svc_State \<Rightarrow> testMgr \<Rightarrow> testMgr outcome"
and testMgr_stopDependents ::
  "nat \<Rightarrow> testMgr svc_ops \<Rightarrow> string list \<Rightarrow> testMgr \<Rightarrow> testMgr outcome"
where
  "testMgr_EnsureServiceState 0 ops service state t = None"
| "testMgr_EnsureServiceState (Suc n) ops service state t =
     map_option
       (\<lambda>(e, t', tr). (e, t', EvEnter service state # tr @ [EvExit service state e]))
       (case Query ops service t of
          Inl err \<Rightarrow> Some (Some (ErrorQueryingServiceState err), t, [EvQuery service])
        | Inr st \<Rightarrow>
            if State st = state then Some (None, t, [EvQuery service])
            else if state = Running then
              (case Start ops service t of (e, t') \<Rightarrow>
                 Some (e, t', [EvQuery service, EvStart service]))
            else if state = Stopped then
              (case service of
                 FakePtr p \<Rightarrow>
                   (case testMgr_listDependentServices ops (name (objs t p)) t of
                      Inl err \<Rightarrow> Some (Some err, t, [EvQuery service])
                    | Inr dependentServices \<Rightarrow>
                        (case testMgr_stopDependents n ops dependentServices t of
                           None \<Rightarrow> None
                         | Some (Some err, t', tr) \<Rightarrow> Some (Some err, t', EvQuery service # tr)
                         | Some (None, t', tr) \<Rightarrow>
                             (case Control ops service Stop t' of (e, t'') \<Rightarrow>
                                Some (e, t'', EvQuery service # tr @ [EvControl service Stop]))))
               | _ \<Rightarrow> Some (Some ServiceIsNotCorrectType, t, [EvQuery service]))
            else Some (Some (UnexpectedStateRequest state), t, [EvQuery service]))"
| "testMgr_stopDependents n ops [] t = Some (None, t, [])"
| "testMgr_stopDependents n ops (dependentServiceName # rest) t =
     (case testMgr_OpenService dependentServiceName t of
        Inl err \<Rightarrow> Some (Some (ErrorOpeningDependentService dependentServiceName), t, [])
      | Inr dependentSvc \<Rightarrow>
          (case testMgr_EnsureServiceState n ops dependentSvc Stopped t of
             None \<Rightarrow> None
           | Some (Some err, t', tr) \<Rightarrow>
               Some (Some (UnableToStopDependentService dependentServiceName err), t', tr)
           | Some (None, t', tr) \<Rightarrow>
               (case testMgr_stopDependents n ops rest t' of
                  None \<Rightarrow> None
                | Some (e, t'', tr') \<Rightarrow> Some (e, t'', tr @ tr'))))"

text \<open>\<^verbatim>\<open>DeleteService\<close> of the test double.\<close>

definition testMgr_DeleteService ::
  "nat \<Rightarrow> testMgr svc_ops \<Rightarrow> string \<Rightarrow> testMgr \<Rightarrow> testMgr outcome" where
  "testMgr_DeleteService fuel ops nm t =
     (case fsl_read nm t of
        None \<Rightarrow> Some (None, t, [])
      | Some winSvc \<Rightarrow>
          (case testMgr_EnsureServiceState fuel ops winSvc Stopped t of
             None \<Rightarrow> None
           | Some (Some err, t', tr) \<Rightarrow> Some (Some (FailedToStopService nm err), t', tr)
           | Some (None, t', tr) \<Rightarrow>
               (case fsl_remove nm t' of (e, t'') \<Rightarrow> Some (e, t'', tr @ [EvRemove nm]))))"

text \<open>
  \<^verbatim>\<open>NewTestMgr\<close>: the existing services, given as the entries of the argument map,
  are stored under their keys; the model gives the objects the addresses \<open>0, 1, ...\<close>
  in the order of the entries. Addresses not in use hold \<open>noService\<close>.
\<close>

definition noService :: FakeService where
  "noService = \<lparr>name = [], config = \<lparr>BinaryPathName = [], Dependencies = []\<rparr>,
                status = \<lparr>State = 0\<rparr>\<rparr>"

definition newFakeServiceList :: testMgr where
  "newFakeServiceList = \<lparr>svcs = [], objs = (\<lambda>_. noService), nextp = 0\<rparr>"

fun NewTestMgr_loop :: "(string \<times> FakeService) list \<Rightarrow> testMgr \<Rightarrow> testMgr" where
  "NewTestMgr_loop [] t = t"
| "NewTestMgr_loop ((nm, sv) # rest) t =
     NewTestMgr_loop rest
       (fsl_write nm (FakePtr (nextp t)) (t\<lparr>objs := (objs t)(nextp t := sv), nextp := Suc (nextp t)\<rparr>))"

definition NewTestMgr :: "(string \<times> FakeService) list \<Rightarrow> testMgr" where
  "NewTestMgr existingServices = NewTestMgr_loop existingServices newFakeServiceList"

section \<open>The real manager (package manager)\<close>

text \<open>
  What one \<^verbatim>\<open>EnumDependentServicesW\<close> call gives back: the first return value of
  \<^verbatim>\<open>Call\<close>, its error (never nil), the contents of \<^verbatim>\<open>bytesNeeded\<close> and
  \<^verbatim>\<open>returnedServiceCount\<close> after the call, and \<open>decoded\<close>, the service names that
  reading \<^verbatim>\<open>returnedServiceCount\<close> records of type \<^verbatim>\<open>enumServiceStatus\<close> from the
  buffer yields.
\<close>

record enum_result =
  success :: nat
  err :: error
  bytesNeeded :: "32 word"
  returnedServiceCount :: "32 word"
  decoded :: "string list"

definition ERROR_MORE_DATA :: error where "ERROR_MORE_DATA = Errno 234"
definition SERVICE_STATE_ALL :: "32 word" where "SERVICE_STATE_ALL = 3"

text \<open>
  The operating system behind \<^verbatim>\<open>mgr.Mgr\<close>, as functions on the world \<open>'w\<close>. The
  system call takes the handle, the state filter, the buffer size and the current
  contents of the two out-variables.
\<close>

record 'w os_api =
  OpenService :: "string \<Rightarrow> 'w \<Rightarrow> (error + Service) \<times> 'w"
  ListServices :: "'w \<Rightarrow> error + string list"
  CreateService :: "string \<Rightarrow> string \<Rightarrow> Config \<Rightarrow> string list \<Rightarrow> 'w \<Rightarrow> (error + Service) \<times> 'w"
  enumDependentServicesSyscall ::
    "nat \<Rightarrow> 32 word \<Rightarrow> 32 word \<Rightarrow> 32 word \<Rightarrow> 32 word \<Rightarrow> 'w \<Rightarrow> enum_result \<times> 'w"
  delay :: "'w \<Rightarrow> 'w"
  pollBudget :: nat

definition manager_CreateService ::
  "'w os_api \<Rightarrow> string \<Rightarrow> string \<Rightarrow> Config \<Rightarrow> string list \<Rightarrow> 'w \<Rightarrow> (error + Service) \<times> 'w" where
  "manager_CreateService api nm exepath cfg args w = CreateService api nm exepath cfg args w"

definition manager_GetServices :: "'w os_api \<Rightarrow> 'w \<Rightarrow> error + string set" where
  "manager_GetServices api w =
     (case ListServices api w of Inl e \<Rightarrow> Inl e | Inr svcList \<Rightarrow> Inr (set svcList))"

definition manager_OpenService :: "'w os_api \<Rightarrow> string \<Rightarrow> 'w \<Rightarrow> (error + Service) \<times> 'w" where
  "manager_OpenService api nm w = OpenService api nm w"

text \<open>
  The resize loop of \<^verbatim>\<open>listDependentServices\<close>. \<open>len\<close> is \<^verbatim>\<open>len(serviceBuffer)\<close>,
  \<open>bn\<close> and \<open>cnt\<close> are \<^verbatim>\<open>bytesNeeded\<close> and \<^verbatim>\<open>returnedServiceCount\<close>. The result
  carries the attempts made, in order: the buffer size of each call and what the call
  gave back. A retry happens only with a strictly larger 32-bit size, which is why the
  loop is a total function.
\<close>

type_synonym attempt = "32 word \<times> enum_result"

function enumLoop ::
  "'w os_api \<Rightarrow> nat \<Rightarrow> 32 word \<Rightarrow> 32 word \<Rightarrow> 32 word \<Rightarrow> 'w
     \<Rightarrow> (error + (32 word \<times> 32 word \<times> string list)) \<times> 'w \<times> attempt list" where
  "enumLoop api h len bn cnt w =
     (case enumDependentServicesSyscall api h SERVICE_STATE_ALL len bn cnt w of (r, w') \<Rightarrow>
        if success r \<noteq> 0 then (Inr (len, returnedServiceCount r, decoded r), w', [(len, r)])
        else if err r \<noteq> ERROR_MORE_DATA
          then (Inl (UnexpectedEnumError (err r)), w', [(len, r)])
        else if bytesNeeded r \<le> len then (Inl (err r), w', [(len, r)])
        else (case enumLoop api h (bytesNeeded r) (bytesNeeded r) (returnedServiceCount r) w' of
                (res, w'', attempts) \<Rightarrow> (res, w'', (len, r) # attempts)))"
  by pat_completeness auto
termination
proof (relation "measure (\<lambda>(api, h, len, bn, cnt, w). 2 ^ 32 - unat len)")
  show "wf (measure (\<lambda>(api, h, len, bn, cnt, w). 2 ^ 32 - unat (len :: 32 word)))"
    by simp
next
  fix api :: "'w os_api" and h :: nat and len bn cnt :: "32 word" and w :: 'w
    and x :: "enum_result \<times> 'w" and r :: enum_result and w' :: 'w
  assume "\<not> bytesNeeded r \<le> len"
  then have lt: "unat len < unat (bytesNeeded r)"
    by (simp add: word_less_nat_alt not_le)
  have "unat (bytesNeeded r) < 2 ^ 32"
    using unsigned_less [of "bytesNeeded r"] by simp
  with lt show "((api, h, bytesNeeded r, bytesNeeded r, returnedServiceCount r, w'),
                 (api, h, len, bn, cnt, w))
        \<in> measure (\<lambda>(api, h, len, bn, cnt, w). 2 ^ 32 - unat len)"
    by simp
qed

text \<open>
  \<^verbatim>\<open>listDependentServices\<close>: after the loop, no service returned gives the empty
  list; otherwise the records are read from \<^verbatim>\<open>serviceBuffer[0]\<close> on, which panics on an
  empty buffer. The panic is not a return of the function: it is the value
  \<open>Inl PanicIndexOutOfRange\<close>, which no return produces (the errors returned are
  \<open>UnexpectedEnumError\<close> and \<open>ERROR_MORE_DATA\<close>), and the callers below treat it as a
  panic, not as an error.
\<close>

definition manager_listDependentServices ::
  "'w os_api \<Rightarrow> nat \<Rightarrow> 'w \<Rightarrow> (error + string list) \<times> 'w \<times> attempt list" where
  "manager_listDependentServices api serviceHandle w =
     (case enumLoop api serviceHandle 0 0 0 w of
        (Inl e, w', attempts) \<Rightarrow> (Inl e, w', attempts)
      | (Inr (len, cnt, names), w', attempts) \<Rightarrow>
          if cnt = 0 then (Inr [], w', attempts)
          else if len = 0 then (Inl PanicIndexOutOfRange, w', attempts)
          else (Inr names, w', attempts))"

text \<open>
  Modelled from the spec: \<^verbatim>\<open>winsvc.WaitForState\<close> is not in the two source files. The
  spec (4.3, step 4): poll \<^verbatim>\<open>Query()\<close> in a loop until the reported state equals the
  target, or a retry budget is exhausted, which is a failure returned to the caller; an
  error of a query is propagated (step 5). Between two polls the world moves by
  \<open>delay\<close>; the budget is the number of polls.
\<close>

fun WaitForState ::
  "'w svc_ops \<Rightarrow> ('w \<Rightarrow> 'w) \<Rightarrow> nat \<Rightarrow> Service \<Rightarrow> svc_State \<Rightarrow> 'w
     \<Rightarrow> error option \<times> 'w \<times> event list" where
  "WaitForState ops dl 0 service state w = (Some TransitionTimeout, w, [])"
| "WaitForState ops dl (Suc k) service state w =
     (case Query ops service w of
        Inl e \<Rightarrow> (Some e, w, [EvQuery service])
      | Inr st \<Rightarrow>
          if State st = state then (None, w, [EvQuery service])
          else (case WaitForState ops dl k service state (dl w) of
                  (e, w', tr) \<Rightarrow> (e, w', EvQuery service # tr)))"

text \<open>
  A panic unwinds the calls: no further statement of the functions runs but the deferred
  ones, no error is wrapped and nothing is returned. In the model a call that panicked
  has a trace that ends with \<open>EvPanic\<close> (where the trace of a call that returned ends
  with its \<open>EvExit\<close>) and carries the marker \<open>PanicIndexOutOfRange\<close> in place of an
  error; every caller passes such a result on as it is.
\<close>

definition panicked :: "event list \<Rightarrow> bool" where
  "panicked tr \<longleftrightarrow> tr \<noteq> [] \<and> last tr = EvPanic"

text \<open>
  \<^verbatim>\<open>EnsureServiceState\<close> of the real manager, with fuel for the depth of the recursion
  as in the test double. \<open>returns\<close> is the result of a call on \<open>service\<close> that returns
  the error \<open>e\<close> after the events \<open>tr\<close>, \<open>panics\<close> the result of one that panics.
\<close>

abbreviation returns ::
  "Service \<Rightarrow> svc_State \<Rightarrow> error option \<Rightarrow> 'w \<Rightarrow> event list \<Rightarrow> 'w outcome" where
  "returns service state e w tr \<equiv>
     Some (e, w, EvEnter service state # tr @ [EvExit service state e])"

abbreviation panics :: "Service \<Rightarrow> svc_State \<Rightarrow> 'w \<Rightarrow> event list \<Rightarrow> 'w outcome" where
  "panics service state w tr \<equiv>
     Some (Some PanicIndexOutOfRange, w, EvEnter service state # tr)"

fun manager_EnsureServiceState ::
  "nat \<Rightarrow> 'w svc_ops \<Rightarrow> 'w os_api \<Rightarrow> Service \<Rightarrow> svc_State \<Rightarrow> 'w \<Rightarrow> 'w outcome"
and manager_stopDependents ::
  "nat \<Rightarrow> 'w svc_ops \<Rightarrow> 'w os_api \<Rightarrow> string list \<Rightarrow> 'w \<Rightarrow> 'w outcome"
where
  "manager_EnsureServiceState 0 ops api service state w = None"
| "manager_EnsureServiceState (Suc n) ops api service state w =
     (case Query ops service w of
        Inl e \<Rightarrow>
          returns service state (Some (ErrorQueryingServiceState e)) w [EvQuery service]
      | Inr st \<Rightarrow>
          if State st = state then returns service state None w [EvQuery service]
          else if state = Running then
            (case Start ops service w of
               (Some e, w') \<Rightarrow>
                 returns service state (Some e) w' [EvQuery service, EvStart service]
             | (None, w') \<Rightarrow>
                 (case WaitForState ops (delay api) (pollBudget api) service state w' of
                    (e, w'', tr) \<Rightarrow>
                      returns service state e w'' ([EvQuery service, EvStart service] @ tr)))
          else if state = Stopped then
            (case service of
               MgrService h \<Rightarrow>
                 (case manager_listDependentServices api h w of
                    (Inl e, w1, attempts) \<Rightarrow>
                      if e = PanicIndexOutOfRange
                      then panics service state w1 [EvQuery service, EvPanic]
                      else returns service state (Some (ErrorFindingDependentServices e)) w1
                             [EvQuery service]
                  | (Inr dependentServices, w1, attempts) \<Rightarrow>
                      (case manager_stopDependents n ops api dependentServices w1 of
                         None \<Rightarrow> None
                       | Some (Some e, w2, tr) \<Rightarrow>
                           if panicked tr then panics service state w2 (EvQuery service # tr)
                           else returns service state (Some e) w2 (EvQuery service # tr)
                       | Some (None, w2, tr) \<Rightarrow>
                           (case Control ops service Stop w2 of
                              (Some e, w3) \<Rightarrow>
                                returns service state (Some e) w3
                                  (EvQuery service # tr @ [EvControl service Stop])
                            | (None, w3) \<Rightarrow>
                                (case WaitForState ops (delay api) (pollBudget api)
                                        service state w3 of
                                   (e, w4, tr') \<Rightarrow>
                                     returns service state e w4
                                       (EvQuery service # tr
                                          @ [EvControl service Stop] @ tr')))))
             | _ \<Rightarrow> returns service state (Some ServiceIsNotCorrectType) w [EvQuery service])
          else returns service state (Some (UnexpectedStateRequest state)) w [EvQuery service])"
| "manager_stopDependents n ops api [] w = Some (None, w, [])"
| "manager_stopDependents n ops api (dependentServiceName # rest) w =
     (case manager_OpenService api dependentServiceName w of
        (Inl e, w1) \<Rightarrow> Some (Some (ErrorOpeningDependentService dependentServiceName), w1, [])
      | (Inr dependentSvc, w1) \<Rightarrow>
          (case manager_EnsureServiceState n ops api dependentSvc Stopped w1 of
             None \<Rightarrow> None
           | Some (Some e, w2, tr) \<Rightarrow>
               if panicked tr then Some (Some e, w2, tr)
               else Some (Some (UnableToStopDependentService dependentServiceName e), w2, tr)
           | Some (None, w2, tr) \<Rightarrow>
               (case manager_stopDependents n ops api rest w2 of
                  None \<Rightarrow> None
                | Some (e, w3, tr') \<Rightarrow> Some (e, w3, tr @ tr'))))"

text \<open>
  \<^verbatim>\<open>DeleteService\<close> of the real manager; the deferred \<^verbatim>\<open>Close\<close> runs on every return
  after the service was opened, and on a panic.
\<close>

definition manager_DeleteService ::
  "nat \<Rightarrow> 'w svc_ops \<Rightarrow> 'w os_api \<Rightarrow> string \<Rightarrow> 'w \<Rightarrow> 'w outcome" where
  "manager_DeleteService fuel ops api nm w =
     (case manager_GetServices api w of
        Inl e \<Rightarrow> Some (Some e, w, [])
      | Inr existingSvcs \<Rightarrow>
          if nm \<notin> existingSvcs then Some (None, w, [])
          else (case OpenService api nm w of
                  (Inl e, w1) \<Rightarrow> Some (Some (FailedToOpenService nm e), w1, [])
                | (Inr service, w1) \<Rightarrow>
                    (case manager_EnsureServiceState fuel ops api service Stopped w1 of
                       None \<Rightarrow> None
                     | Some (Some e, w2, tr) \<Rightarrow>
                         if panicked tr then Some (Some e, Close ops service w2, tr)
                         else Some (Some (FailedToStopService nm e), Close ops service w2, tr)
                     | Some (None, w2, tr) \<Rightarrow>
                         (case Delete ops service w2 of
                            (Some e, w3) \<Rightarrow>
                              Some (Some (FailedToDeleteService nm e), Close ops service w3,
                                    tr @ [EvDelete service])
                          | (None, w3) \<Rightarrow>
                              Some (None, Close ops service w3, tr @ [EvDelete service])))))"

section \<open>A service implementation for the test double\<close>

text \<open>
  Modelled from the spec: the methods of \<^verbatim>\<open>FakeService\<close> are not in the two source
  files. The spec (4.1, 8): \<^verbatim>\<open>Query\<close> returns the most recently known state,
  \<^verbatim>\<open>Config\<close> the declared configuration; in the test double a started service is
  running and a service sent the stop control is stopped when the call returns, and
  starting a service does not start its dependencies. A handle of another kind answers
  every request with an error.
\<close>

definition fake_Query :: "Service \<Rightarrow> testMgr \<Rightarrow> error + Status" where
  "fake_Query s t = (case s of FakePtr p \<Rightarrow> Inr (status (objs t p)) | _ \<Rightarrow> Inl (Errno 1))"

definition fake_Config :: "Service \<Rightarrow> testMgr \<Rightarrow> error + Config" where
  "fake_Config s t = (case s of FakePtr p \<Rightarrow> Inr (config (objs t p)) | _ \<Rightarrow> Inl (Errno 1))"

definition fake_setState :: "nat \<Rightarrow> svc_State \<Rightarrow> testMgr \<Rightarrow> testMgr" where
  "fake_setState p st t = t\<lparr>objs := (objs t)(p := (objs t p)\<lparr>status := \<lparr>State = st\<rparr>\<rparr>)\<rparr>"

definition fake_Start :: "Service \<Rightarrow> testMgr \<Rightarrow> error option \<times> testMgr" where
  "fake_Start s t =
     (case s of FakePtr p \<Rightarrow> (None, fake_setState p Running t) | _ \<Rightarrow> (Some (Errno 1), t))"

definition fake_Control :: "Service \<Rightarrow> svc_Cmd \<Rightarrow> testMgr \<Rightarrow> error option \<times> testMgr" where
  "fake_Control s c t =
     (case s of
        FakePtr p \<Rightarrow> if c = Stop then (None, fake_setState p Stopped t) else (None, t)
      | _ \<Rightarrow> (Some (Errno 1), t))"

definition fake_ops :: "testMgr svc_ops" where
  "fake_ops = \<lparr>Query = fake_Query, Start = fake_Start, Control = fake_Control,
               GetConfig = fake_Config, Delete = (\<lambda>s t. (None, t)), Close = (\<lambda>s t. t)\<rparr>"

text \<open>The same services, except that every stop control is refused (access denied).\<close>

definition denied_ops :: "testMgr svc_ops" where
  "denied_ops = fake_ops\<lparr>Control := (\<lambda>s c t. (Some (Errno 5), t))\<rparr>"

text \<open>Registries used as concrete inputs.\<close>

definition mkService :: "string \<Rightarrow> string list \<Rightarrow> svc_State \<Rightarrow> string \<times> FakeService" where
  "mkService nm deps st =
     (nm, \<lparr>name = nm, config = \<lparr>BinaryPathName = [], Dependencies = deps\<rparr>,
           status = \<lparr>State = st\<rparr>\<rparr>)"

definition registry_xyzw :: testMgr where
  "registry_xyzw = NewTestMgr
     [mkService ''X'' [''Z''] Running, mkService ''Y'' [''Z''] Running,
      mkService ''W'' [] Running, mkService ''Z'' [] Running]"

definition registry_chain :: "svc_State \<Rightarrow> testMgr" where
  "registry_chain stB = NewTestMgr
     [mkService ''A'' [''B''] Running, mkService ''B'' [''C''] stB,
      mkService ''C'' [] Running]"

definition registry_self :: testMgr where
  "registry_self = NewTestMgr [mkService ''Z'' [''Z''] Running]"

definition registry_cycle :: testMgr where
  "registry_cycle = NewTestMgr
     [mkService ''A'' [''B''] Running, mkService ''B'' [''A''] Running]"

definition registry_paused :: testMgr where
  "registry_paused = NewTestMgr [mkService ''P'' [] Paused]"

section \<open>A simulated service control manager\<close>

text \<open>
  A concrete operating system on which the model of the real manager runs in the
  examples. It keeps its services in a \<open>testMgr\<close> world; the handle of a service is
  \<open>MgrService p\<close> for the object at address \<open>p\<close>. Start and stop requests leave the
  service in the pending state, and the wait between two polls (\<open>sim_delay\<close>) completes
  every pending transition. The enumeration call reports 36 bytes for each dependent.
\<close>

definition sim_Query :: "Service \<Rightarrow> testMgr \<Rightarrow> error + Status" where
  "sim_Query s t = (case s of MgrService h \<Rightarrow> Inr (status (objs t h)) | _ \<Rightarrow> Inl (Errno 6))"

definition sim_Config :: "Service \<Rightarrow> testMgr \<Rightarrow> error + Config" where
  "sim_Config s t = (case s of MgrService h \<Rightarrow> Inr (config (objs t h)) | _ \<Rightarrow> Inl (Errno 6))"

definition sim_Start :: "Service \<Rightarrow> testMgr \<Rightarrow> error option \<times> testMgr" where
  "sim_Start s t =
     (case s of MgrService h \<Rightarrow> (None, fake_setState h StartPending t)
      | _ \<Rightarrow> (Some (Errno 6), t))"

definition sim_Control :: "Service \<Rightarrow> svc_Cmd \<Rightarrow> testMgr \<Rightarrow> error option \<times> testMgr" where
  "sim_Control s c t =
     (case s of
        MgrService h \<Rightarrow> if c = Stop then (None, fake_setState h StopPending t) else (None, t)
      | _ \<Rightarrow> (Some (Errno 6), t))"

definition sim_Delete :: "Service \<Rightarrow> testMgr \<Rightarrow> error option \<times> testMgr" where
  "sim_Delete s t =
     (case s of MgrService h \<Rightarrow> fsl_remove (name (objs t h)) t | _ \<Rightarrow> (Some (Errno 6), t))"

definition settle :: "FakeService \<Rightarrow> FakeService" where
  "settle f =
     f\<lparr>status := \<lparr>State = (if State (status f) = StartPending then Running
                            else if State (status f) = StopPending then Stopped
                            else State (status f))\<rparr>\<rparr>"

definition sim_delay :: "testMgr \<Rightarrow> testMgr" where
  "sim_delay t = t\<lparr>objs := (\<lambda>p. settle (objs t p))\<rparr>"

definition sim_OpenService :: "string \<Rightarrow> testMgr \<Rightarrow> (error + Service) \<times> testMgr" where
  "sim_OpenService nm t =
     (case fsl_read nm t of
        Some (FakePtr p) \<Rightarrow> (Inr (MgrService p), t)
      | _ \<Rightarrow> (Inl (Errno 1060), t))"

definition sim_CreateService ::
  "string \<Rightarrow> string \<Rightarrow> Config \<Rightarrow> string list \<Rightarrow> testMgr \<Rightarrow> (error + Service) \<times> testMgr" where
  "sim_CreateService nm exepath cfg args t =
     (case testMgr_CreateService nm exepath cfg args t of
        (Inr (FakePtr p), t') \<Rightarrow> (Inr (MgrService p), t')
      | r \<Rightarrow> r)"

definition sim_dependents :: "nat \<Rightarrow> testMgr \<Rightarrow> string list" where
  "sim_dependents h t =
     (case listDependentLoop
             \<lparr>Query = fake_Query, Start = fake_Start, Control = fake_Control,
              GetConfig = fake_Config, Delete = (\<lambda>s t. (None, t)), Close = (\<lambda>s t. t)\<rparr>
             (name (objs t h)) t (svcs t) [] of
        Inr ns \<Rightarrow> ns
      | Inl e \<Rightarrow> [])"

definition sim_enum ::
  "nat \<Rightarrow> 32 word \<Rightarrow> 32 word \<Rightarrow> 32 word \<Rightarrow> 32 word \<Rightarrow> testMgr \<Rightarrow> enum_result \<times> testMgr" where
  "sim_enum h flt cbBufSize bn cnt t =
     (let names = sim_dependents h t; need = 36 * of_nat (length names) in
        if cbBufSize < need
        then (\<lparr>success = 0, err = ERROR_MORE_DATA, bytesNeeded = need,
               returnedServiceCount = 0, decoded = []\<rparr>, t)
        else (\<lparr>success = 1, err = Errno 0, bytesNeeded = need,
               returnedServiceCount = of_nat (length names), decoded = names\<rparr>, t))"

definition sim_ops :: "testMgr svc_ops" where
  "sim_ops = \<lparr>Query = sim_Query, Start = sim_Start, Control = sim_Control,
              GetConfig = sim_Config, Delete = sim_Delete, Close = (\<lambda>s t. t)\<rparr>"

definition sim_api :: "testMgr os_api" where
  "sim_api = \<lparr>OpenService = sim_OpenService, ListServices = (\<lambda>t. Inr (listServiceNames t)),
              CreateService = sim_CreateService, enumDependentServicesSyscall = sim_enum,
              delay = sim_delay, pollBudget = 3\<rparr>"

text \<open>The same system with services that never leave a pending state.\<close>

definition stuck_api :: "testMgr os_api" where
  "stuck_api = sim_api\<lparr>delay := (\<lambda>t. t)\<rparr>"

text \<open>
  The resize protocol as a property of the attempts of one enumeration: every attempt but
  the last failed with "more data" and reported a size larger than its buffer, the next
  attempt used a buffer of exactly that size, and the last attempt succeeded, or failed
  with another error, or failed with "more data" and a reported size that does not exceed
  its buffer.
\<close>

fun resize_protocol :: "attempt list \<Rightarrow> bool" where
  "resize_protocol [] = False"
| "resize_protocol [(n, r)] =
     (success r \<noteq> 0 \<or> err r \<noteq> ERROR_MORE_DATA \<or> bytesNeeded r \<le> n)"
| "resize_protocol ((n, r) # (m, r') # rest) =
     (success r = 0 \<and> err r = ERROR_MORE_DATA \<and> n < bytesNeeded r \<and> m = bytesNeeded r
      \<and> resize_protocol ((m, r') # rest))"

text \<open>
  Two system calls used as concrete inputs: one that fails with "more data" but reports
  the size 0, and one that always fails with "more data" and reports one byte more than
  the buffer it was given.
\<close>

definition badsize_api :: "testMgr os_api" where
  "badsize_api = sim_api\<lparr>enumDependentServicesSyscall :=
     (\<lambda>h flt cbBufSize bn cnt t.
        (\<lparr>success = 0, err = ERROR_MORE_DATA, bytesNeeded = 0,
          returnedServiceCount = 0, decoded = []\<rparr>, t))\<rparr>"

definition greedy_api :: "testMgr os_api" where
  "greedy_api = sim_api\<lparr>enumDependentServicesSyscall :=
     (\<lambda>h flt cbBufSize bn cnt t.
        (\<lparr>success = 0, err = ERROR_MORE_DATA, bytesNeeded = cbBufSize + 1,
          returnedServiceCount = 0, decoded = []\<rparr>, t))\<rparr>"

text \<open>
  A system call that succeeds on the empty buffer of the first attempt and reports one
  service: the enumeration then reads \<^verbatim>\<open>serviceBuffer[0]\<close> of an empty buffer.
\<close>

definition panic_api :: "testMgr os_api" where
  "panic_api = sim_api\<lparr>enumDependentServicesSyscall :=
     (\<lambda>h flt cbBufSize bn cnt t.
        (\<lparr>success = 1, err = Errno 0, bytesNeeded = 0,
          returnedServiceCount = 1, decoded = []\<rparr>, t))\<rparr>"

text \<open>
  The services of a registry \<open>reg\<close> other than \<open>z\<close> whose configuration names \<open>z\<close>
  as a dependency.
\<close>

abbreviation declaring :: "testMgr svc_ops \<Rightarrow> testMgr \<Rightarrow> (string \<times> Service) list \<Rightarrow> string \<Rightarrow> string set" where
  "declaring ops t reg z \<equiv>
     {k. k \<noteq> z \<and> (\<exists>sv cfg. (k, sv) \<in> set reg \<and> GetConfig ops sv t = Inr cfg
                                 \<and> z \<in> set (Dependencies cfg))}"

text \<open>
  The declared dependency relation of a registry: \<open>(k, d)\<close> when the service registered
  as \<open>k\<close> names \<open>d\<close> in its dependency list (\<open>d\<close> may be \<open>k\<close> itself). Two worlds have the same
  frame when they agree on the registry, on the names of the objects and on every
  configuration read, that is, on everything but the states of the services.
\<close>

definition declared :: "testMgr svc_ops \<Rightarrow> testMgr \<Rightarrow> (string \<times> string) set" where
  "declared ops t =
     {(k, d). \<exists>sv cfg. (k, sv) \<in> set (svcs t) \<and> GetConfig ops sv t = Inr cfg
                       \<and> d \<in> set (Dependencies cfg)}"

definition same_frame :: "testMgr svc_ops \<Rightarrow> testMgr \<Rightarrow> testMgr \<Rightarrow> bool" where
  "same_frame ops t t0 \<longleftrightarrow>
     svcs t = svcs t0 \<and> (\<forall>q. name (objs t q) = name (objs t0 q))
     \<and> (\<forall>sv. GetConfig ops sv t = GetConfig ops sv t0)"

text \<open>
  For a set \<open>C\<close> of services of the test double: the world \<open>t'\<close> has the frame of
  \<open>t\<close> and every service in \<open>C\<close> answers a query as it does in \<open>t\<close>.
\<close>

definition cyc_inv :: "testMgr svc_ops \<Rightarrow> Service set \<Rightarrow> testMgr \<Rightarrow> testMgr \<Rightarrow> bool" where
  "cyc_inv ops C t t' \<longleftrightarrow>
     same_frame ops t' t \<and> (\<forall>c\<in>C. Query ops c t' = Query ops c t)"

text \<open>
  The loop over the dependents as the ordering guarantee describes it. The names
  \<open>ds\<close> are handled one after the other from the world \<open>t\<close> on: each is opened, the
  nested \<^verbatim>\<open>EnsureServiceState\<close> call to stopped on it starts in the world that the call
  before it left and returns success, and \<open>pre\<close> is exactly the events of these calls
  in that order, each from its entry to its successful return; \<open>t1\<close> is the world after
  the last of them. For the real manager the world is also threaded through
  \<^verbatim>\<open>OpenService\<close>, and the nested call has returned in a world where a query reports
  the dependent stopped.
\<close>

fun testMgr_dependents_stopped ::
  "nat \<Rightarrow> testMgr svc_ops \<Rightarrow> string list \<Rightarrow> testMgr \<Rightarrow> event list \<Rightarrow> testMgr \<Rightarrow> bool" where
  "testMgr_dependents_stopped n ops [] t pre t1 = (pre = [] \<and> t1 = t)"
| "testMgr_dependents_stopped n ops (d # ds) t pre t1 =
     (\<exists>h t2 mid rest.
        testMgr_OpenService d t = Inr h
        \<and> testMgr_EnsureServiceState n ops h Stopped t
            = Some (None, t2, EvEnter h Stopped # mid @ [EvExit h Stopped None])
        \<and> pre = (EvEnter h Stopped # mid @ [EvExit h Stopped None]) @ rest
        \<and> testMgr_dependents_stopped n ops ds t2 rest t1)"

fun manager_dependents_stopped ::
  "nat \<Rightarrow> 'w svc_ops \<Rightarrow> 'w os_api \<Rightarrow> string list \<Rightarrow> 'w \<Rightarrow> event list \<Rightarrow> 'w \<Rightarrow> bool" where
  "manager_dependents_stopped n ops api [] w pre w1 = (pre = [] \<and> w1 = w)"
| "manager_dependents_stopped n ops api (d # ds) w pre w1 =
     (\<exists>h wa wb mid rest.
        manager_OpenService api d w = (Inr h, wa)
        \<and> manager_EnsureServiceState n ops api h Stopped wa
            = Some (None, wb, EvEnter h Stopped # mid @ [EvExit h Stopped None])
        \<and> (\<exists>st. Query ops h wb = Inr st \<and> State st = Stopped)
        \<and> pre = (EvEnter h Stopped # mid @ [EvExit h Stopped None]) @ rest
        \<and> manager_dependents_stopped n ops api ds wb rest w1)"

text \<open>
  Between two worlds of the test double: the registry is the same and every object
  that was stopped is still stopped.
\<close>

definition keeps_stopped :: "testMgr \<Rightarrow> testMgr \<Rightarrow> bool" where
  "keeps_stopped t' t \<longleftrightarrow>
     svcs t' = svcs t
     \<and> (\<forall>q. State (status (objs t q)) = Stopped \<longrightarrow> State (status (objs t' q)) = Stopped)"

text \<open>A cycle between A and B, with a further service D that depends on A.\<close>

definition registry_cycle_extra :: testMgr where
  "registry_cycle_extra = NewTestMgr
     [mkService ''D'' [''A''] Running, mkService ''A'' [''B''] Running,
      mkService ''B'' [''A''] Running]"

section \<open>Properties\<close>

lemmas registry_defs =
  registry_xyzw_def registry_chain_def registry_self_def registry_cycle_def
  registry_cycle_extra_def registry_paused_def NewTestMgr_def newFakeServiceList_def mkService_def fsl_write_def

subsection \<open>Polling\<close>

lemma WaitForState_success:
  "WaitForState ops dl k s t w = (None, w', tr) \<Longrightarrow>
     (\<exists>st. Query ops s w' = Inr st \<and> State st = t) \<and> (\<exists>pre. tr = pre @ [EvQuery s])"
proof (induction k arbitrary: w tr)
  case 0
  then show ?case by simp
next
  case (Suc k)
  show ?case
  proof (cases "Query ops s w")
    case (Inl e)
    with Suc.prems show ?thesis by simp
  next
    case (Inr st)
    show ?thesis
    proof (cases "State st = t")
      case True
      with Inr Suc.prems show ?thesis by auto
    next
      case False
      obtain e w2 tr2 where r: "WaitForState ops dl k s t (dl w) = (e, w2, tr2)"
        by (cases "WaitForState ops dl k s t (dl w)") auto
      with Inr False Suc.prems have "e = None" "w2 = w'" "tr = EvQuery s # tr2" by auto
      with r Suc.IH [of "dl w" tr2] show ?thesis by auto
    qed
  qed
qed

lemma manager_success_reports_target:
  assumes "manager_EnsureServiceState fuel ops api s t w = Some (None, w', tr)"
  shows "(\<exists>st. Query ops s w' = Inr st \<and> State st = t)
         \<and> (\<exists>pre. tr = pre @ [EvQuery s, EvExit s t None])"
proof (cases fuel)
  case 0
  with assms show ?thesis by simp
next
  case (Suc n)
  from assms [unfolded Suc] show ?thesis
    apply (simp split: sum.splits if_splits prod.splits option.splits Service.splits)
    apply (auto dest!: WaitForState_success)
    done
qed

subsection \<open>Creating a service\<close>

text \<open>
  C7. In the test double, \<^verbatim>\<open>CreateService\<close> on a name that is in the registry fails
  with the already-exists error and returns the world as it was, so the existing
  service keeps its configuration and state; on a name that is not in the registry it
  succeeds, the new service is registered under the name with the given configuration
  and the state stopped, and a second creation under the same name then fails and
  changes nothing.
\<close>

theorem CreateService_exists_or_stopped:
  "(fsl_read n t \<noteq> None \<longrightarrow>
      testMgr_CreateService n exepath cfg args t = (Inl ServiceAlreadyExists, t))
   \<and> (fsl_read n t = None \<longrightarrow>
        (let p = nextp t; t' = snd (testMgr_CreateService n exepath cfg args t) in
           fst (testMgr_CreateService n exepath cfg args t) = Inr (FakePtr p)
           \<and> fsl_read n t' = Some (FakePtr p)
           \<and> objs t' p = \<lparr>name = n, config = cfg\<lparr>BinaryPathName := exepath\<rparr>,
                           status = \<lparr>State = Stopped\<rparr>\<rparr>
           \<and> testMgr_CreateService n exepath cfg args t' = (Inl ServiceAlreadyExists, t')))"
  by (auto simp: testMgr_CreateService_def fsl_read_def fsl_write_def Let_def update_conv')

theorem CreateService_exists_or_stopped_witness:
  "fsl_read ''Z'' registry_self \<noteq> None
   \<and> testMgr_CreateService ''Z'' ''z.exe'' \<lparr>BinaryPathName = [], Dependencies = []\<rparr> []
         registry_self
       = (Inl ServiceAlreadyExists, registry_self)
   \<and> fsl_read ''web'' newFakeServiceList = None
   \<and> fst (testMgr_CreateService ''web'' ''web.exe''
            \<lparr>BinaryPathName = [], Dependencies = []\<rparr> [] newFakeServiceList)
       = Inr (FakePtr 0)"
proof -
  have a: "fsl_read ''Z'' registry_self \<noteq> None"
    by (simp add: registry_defs fsl_read_def)
  have b: "fsl_read ''web'' newFakeServiceList = None"
    by (simp add: registry_defs fsl_read_def)
  from a b
    CreateService_exists_or_stopped [of "''Z''" registry_self "''z.exe''"
      "\<lparr>BinaryPathName = [], Dependencies = []\<rparr>" "[]"]
    CreateService_exists_or_stopped [of "''web''" newFakeServiceList "''web.exe''"
      "\<lparr>BinaryPathName = [], Dependencies = []\<rparr>" "[]"]
  show ?thesis by (simp add: Let_def newFakeServiceList_def)
qed

lemmas fake_defs = fake_ops_def fake_Query_def fake_Config_def fake_Start_def fake_Control_def
  fake_setState_def testMgr_listDependentServices_def testMgr_OpenService_def fsl_read_def
lemmas state_defs = Stopped_def Running_def Paused_def StartPending_def StopPending_def Stop_def
lemmas sim_defs = sim_ops_def sim_api_def stuck_api_def sim_Query_def sim_Config_def sim_Start_def
  sim_Control_def sim_Delete_def settle_def sim_delay_def sim_OpenService_def sim_dependents_def
  sim_enum_def manager_OpenService_def manager_listDependentServices_def


subsection \<open>A service that is already in the requested state\<close>

lemma fake_success_reports_target:
  assumes "testMgr_EnsureServiceState fuel fake_ops s target t = Some (None, t', tr)"
  shows "\<exists>st. Query fake_ops s t' = Inr st \<and> State st = target"
proof (cases fuel)
  case 0
  with assms show ?thesis by simp
next
  case (Suc n)
  from assms [unfolded Suc] show ?thesis
    by (auto simp: fake_ops_def fake_Query_def fake_Start_def fake_Control_def fake_setState_def
             split: sum.splits if_splits prod.splits option.splits Service.splits)
qed

text \<open>
  C3. If \<^verbatim>\<open>Query\<close> already reports the requested state, \<^verbatim>\<open>EnsureServiceState\<close>
  returns success, leaves the world as it is and makes no request but that one query
  (no start, no control), in the test double and in the real manager. Consequently a
  second call right after a successful one is such a no-op: in the real manager, because
  the first call returned only after a query reported the state; in the test double,
  with services that change state when the request is made.
\<close>

theorem EnsureServiceState_already_in_state:
  "(Query fops s t = Inr st \<and> State st = target \<longrightarrow>
      testMgr_EnsureServiceState (Suc n) fops s target t
        = Some (None, t, [EvEnter s target, EvQuery s, EvExit s target None]))
   \<and> (Query ops s w = Inr st' \<and> State st' = target \<longrightarrow>
      manager_EnsureServiceState (Suc n) ops api s target w
        = Some (None, w, [EvEnter s target, EvQuery s, EvExit s target None]))
   \<and> (manager_EnsureServiceState fuel ops api s target w = Some (None, w', tr) \<longrightarrow>
      manager_EnsureServiceState (Suc n) ops api s target w'
        = Some (None, w', [EvEnter s target, EvQuery s, EvExit s target None]))
   \<and> (testMgr_EnsureServiceState fuel fake_ops s target t = Some (None, t', tr') \<longrightarrow>
      testMgr_EnsureServiceState (Suc n) fake_ops s target t'
        = Some (None, t', [EvEnter s target, EvQuery s, EvExit s target None]))"
proof (intro conjI impI)
  assume "Query fops s t = Inr st \<and> State st = target"
  then show "testMgr_EnsureServiceState (Suc n) fops s target t
        = Some (None, t, [EvEnter s target, EvQuery s, EvExit s target None])"
    by simp
next
  assume "Query ops s w = Inr st' \<and> State st' = target"
  then show "manager_EnsureServiceState (Suc n) ops api s target w
        = Some (None, w, [EvEnter s target, EvQuery s, EvExit s target None])"
    by simp
next
  assume "manager_EnsureServiceState fuel ops api s target w = Some (None, w', tr)"
  from manager_success_reports_target [OF this]
  obtain st2 where "Query ops s w' = Inr st2" "State st2 = target" by blast
  then show "manager_EnsureServiceState (Suc n) ops api s target w'
        = Some (None, w', [EvEnter s target, EvQuery s, EvExit s target None])"
    by simp
next
  assume "testMgr_EnsureServiceState fuel fake_ops s target t = Some (None, t', tr')"
  from fake_success_reports_target [OF this]
  obtain st2 where "Query fake_ops s t' = Inr st2" "State st2 = target" by blast
  then show "testMgr_EnsureServiceState (Suc n) fake_ops s target t'
        = Some (None, t', [EvEnter s target, EvQuery s, EvExit s target None])"
    by simp
qed


theorem EnsureServiceState_already_in_state_witness:
  "testMgr_EnsureServiceState (Suc 0) fake_ops (FakePtr 1) Stopped (registry_chain Stopped)
     = Some (None, registry_chain Stopped,
             [EvEnter (FakePtr 1) Stopped, EvQuery (FakePtr 1), EvExit (FakePtr 1) Stopped None])
   \<and> manager_EnsureServiceState (Suc 0) sim_ops sim_api (MgrService 1) Stopped
         (registry_chain Stopped)
     = Some (None, registry_chain Stopped,
             [EvEnter (MgrService 1) Stopped, EvQuery (MgrService 1),
              EvExit (MgrService 1) Stopped None])
   \<and> (\<exists>w' tr. manager_EnsureServiceState (Suc 0) sim_ops sim_api (MgrService 0) Stopped
                   (registry_chain Stopped) = Some (None, w', tr)
        \<and> manager_EnsureServiceState (Suc 0) sim_ops sim_api (MgrService 0) Stopped w'
            = Some (None, w', [EvEnter (MgrService 0) Stopped, EvQuery (MgrService 0),
                               EvExit (MgrService 0) Stopped None]))
   \<and> (\<exists>t' tr. testMgr_EnsureServiceState (Suc 0) fake_ops (FakePtr 0) Stopped
                   (registry_chain Stopped) = Some (None, t', tr)
        \<and> testMgr_EnsureServiceState (Suc 0) fake_ops (FakePtr 0) Stopped t'
            = Some (None, t', [EvEnter (FakePtr 0) Stopped, EvQuery (FakePtr 0),
                               EvExit (FakePtr 0) Stopped None]))"
proof -
  have h1: "Query fake_ops (FakePtr 1) (registry_chain Stopped) = Inr \<lparr>State = Stopped\<rparr>
            \<and> State \<lparr>State = Stopped\<rparr> = Stopped"
    by (simp add: fake_defs registry_defs)
  have h2: "Query sim_ops (MgrService 1) (registry_chain Stopped) = Inr \<lparr>State = Stopped\<rparr>
            \<and> State \<lparr>State = Stopped\<rparr> = Stopped"
    by (simp add: sim_defs registry_defs)
  have "\<exists>w' tr. manager_EnsureServiceState (Suc 0) sim_ops sim_api (MgrService 0)
      Stopped (registry_chain Stopped) = Some (None, w', tr)"
    by (simp add: fake_defs registry_defs state_defs sim_defs ERROR_MORE_DATA_def
          SERVICE_STATE_ALL_def numeral_3_eq_3)
  then obtain w' tr where h3: "manager_EnsureServiceState (Suc 0) sim_ops sim_api (MgrService 0)
      Stopped (registry_chain Stopped) = Some (None, w', tr)"
    by blast
  have "\<exists>t' tr'. testMgr_EnsureServiceState (Suc 0) fake_ops (FakePtr 0)
      Stopped (registry_chain Stopped) = Some (None, t', tr')"
    by (simp add: fake_defs registry_defs state_defs)
  then obtain t' tr' where h4: "testMgr_EnsureServiceState (Suc 0) fake_ops (FakePtr 0)
      Stopped (registry_chain Stopped) = Some (None, t', tr')"
    by blast
  note main = EnsureServiceState_already_in_state
  have c1: "testMgr_EnsureServiceState (Suc 0) fake_ops (FakePtr 1) Stopped (registry_chain Stopped)
     = Some (None, registry_chain Stopped,
             [EvEnter (FakePtr 1) Stopped, EvQuery (FakePtr 1), EvExit (FakePtr 1) Stopped None])"
    using h1 by (rule main [THEN conjunct1, rule_format])
  have c2: "manager_EnsureServiceState (Suc 0) sim_ops sim_api (MgrService 1) Stopped
         (registry_chain Stopped)
     = Some (None, registry_chain Stopped,
             [EvEnter (MgrService 1) Stopped, EvQuery (MgrService 1),
              EvExit (MgrService 1) Stopped None])"
    using h2 by (rule main [THEN conjunct2, THEN conjunct1, rule_format])
  have c3: "manager_EnsureServiceState (Suc 0) sim_ops sim_api (MgrService 0) Stopped w'
            = Some (None, w', [EvEnter (MgrService 0) Stopped, EvQuery (MgrService 0),
                               EvExit (MgrService 0) Stopped None])"
    using h3 by (rule main [THEN conjunct2, THEN conjunct2, THEN conjunct1, rule_format])
  have c4: "testMgr_EnsureServiceState (Suc 0) fake_ops (FakePtr 0) Stopped t'
            = Some (None, t', [EvEnter (FakePtr 0) Stopped, EvQuery (FakePtr 0),
                               EvExit (FakePtr 0) Stopped None])"
    using h4 by (rule main [THEN conjunct2, THEN conjunct2, THEN conjunct2, rule_format])
  show ?thesis
    apply (intro conjI)
       apply (rule c1)
      apply (rule c2)
     apply (rule exI [of _ w'], rule exI [of _ tr], rule conjI [OF h3 c3])
    apply (rule exI [of _ t'], rule exI [of _ tr'], rule conjI [OF h4 c4])
    done
qed

subsection \<open>Unsupported target states\<close>

text \<open>
  C4, as stated, fails: the comparison of the queried state with the target comes before
  the \<^verbatim>\<open>switch\<close> on the target, so a request for the state paused on a paused service
  returns success, in both managers.
\<close>

theorem unsupported_target_already_reached_counterexample:
  "Paused \<notin> {Running, Stopped}
   \<and> testMgr_EnsureServiceState (Suc 0) fake_ops (FakePtr 0) Paused registry_paused
       = Some (None, registry_paused,
               [EvEnter (FakePtr 0) Paused, EvQuery (FakePtr 0), EvExit (FakePtr 0) Paused None])
   \<and> manager_EnsureServiceState (Suc 0) sim_ops sim_api (MgrService 0) Paused registry_paused
       = Some (None, registry_paused,
               [EvEnter (MgrService 0) Paused, EvQuery (MgrService 0),
                EvExit (MgrService 0) Paused None])"
  by (simp add: fake_defs sim_defs registry_defs state_defs)

text \<open>
  C4, amended. For a target state other than running and stopped,
  \<^verbatim>\<open>EnsureServiceState\<close> makes one query and no other request, leaves the world as it
  is and returns at once: the unexpected-state-request error when the query reports a
  state other than the target, the wrapped error of the query when the query fails, and
  success when the query reports the target.
\<close>

theorem unsupported_target_no_action:
  assumes "target \<notin> {Running, Stopped}"
  shows "testMgr_EnsureServiceState (Suc n) fops s target t =
           (let e = (case Query fops s t of
                       Inl e0 \<Rightarrow> Some (ErrorQueryingServiceState e0)
                     | Inr st \<Rightarrow> if State st = target then None
                                else Some (UnexpectedStateRequest target))
            in Some (e, t, [EvEnter s target, EvQuery s, EvExit s target e]))
         \<and> manager_EnsureServiceState (Suc n) ops api s target w =
           (let e = (case Query ops s w of
                       Inl e0 \<Rightarrow> Some (ErrorQueryingServiceState e0)
                     | Inr st \<Rightarrow> if State st = target then None
                                else Some (UnexpectedStateRequest target))
            in Some (e, w, [EvEnter s target, EvQuery s, EvExit s target e]))"
  using assms by (simp add: Let_def split: sum.splits)

theorem unsupported_target_no_action_witness:
  "Paused \<notin> {Running, Stopped}
   \<and> testMgr_EnsureServiceState (Suc 0) fake_ops (FakePtr 0) Paused (registry_chain Running)
       = Some (Some (UnexpectedStateRequest Paused), registry_chain Running,
               [EvEnter (FakePtr 0) Paused, EvQuery (FakePtr 0),
                EvExit (FakePtr 0) Paused (Some (UnexpectedStateRequest Paused))])
   \<and> manager_EnsureServiceState (Suc 0) sim_ops sim_api (MgrService 0) Paused
         (registry_chain Running)
       = Some (Some (UnexpectedStateRequest Paused), registry_chain Running,
               [EvEnter (MgrService 0) Paused, EvQuery (MgrService 0),
                EvExit (MgrService 0) Paused (Some (UnexpectedStateRequest Paused))])"
proof -
  have h: "Paused \<notin> {Running, Stopped}"
    by (simp add: state_defs)
  have q1: "Query fake_ops (FakePtr 0) (registry_chain Running) = Inr \<lparr>State = Running\<rparr>"
    by (simp add: fake_defs registry_defs)
  have q2: "Query sim_ops (MgrService 0) (registry_chain Running) = Inr \<lparr>State = Running\<rparr>"
    by (simp add: sim_defs registry_defs)
  have r: "Running \<noteq> Paused"
    by (simp add: state_defs)
  from unsupported_target_no_action [OF h, where n = 0 and fops = fake_ops and s = "FakePtr 0"
        and t = "registry_chain Running"]
    unsupported_target_no_action [OF h, where n = 0 and ops = sim_ops and api = sim_api
        and s = "MgrService 0" and w = "registry_chain Running"] h q1 q2 r
  show ?thesis by (simp add: Let_def)
qed

subsection \<open>Enumerating the dependents\<close>

lemma set_dependsOn: "set (dependsOn k z ds) = (if z \<in> set ds then {k} else {})"
  by (induction ds) auto

lemma dependsOn_count_le1:
  "count_list ds z \<le> 1 \<Longrightarrow> dependsOn k z ds = (if z \<in> set ds then [k] else [])"
proof (induction ds)
  case Nil
  then show ?case by simp
next
  case (Cons d ds)
  show ?case
  proof (cases "d = z")
    case True
    with Cons.prems have "count_list ds z = 0" by simp
    then have "z \<notin> set ds" by (simp add: count_list_0_iff)
    with Cons.IH True show ?thesis by simp
  next
    case False
    with Cons show ?thesis by simp
  qed
qed

lemma listDependentLoop_set:
  "listDependentLoop ops z t reg acc = Inr deps \<Longrightarrow>
     set deps = set acc \<union> declaring ops t reg z"
proof (induction reg arbitrary: acc)
  case Nil
  then show ?case by simp
next
  case (Cons kv reg)
  obtain k sv where kv: "kv = (k, sv)" by (cases kv)
  show ?case
  proof (cases "k = z")
    case True
    with Cons.prems kv have "listDependentLoop ops z t reg acc = Inr deps" by simp
    from Cons.IH [OF this] True kv show ?thesis by auto
  next
    case False
    with Cons.prems kv obtain cfg where c: "GetConfig ops sv t = Inr cfg"
      and r: "listDependentLoop ops z t reg (acc @ dependsOn k z (Dependencies cfg)) = Inr deps"
      by (auto split: sum.splits)
    from Cons.IH [OF r] c False kv show ?thesis
      by (auto simp: set_dependsOn split: if_splits)
  qed
qed

lemma listDependentLoop_succeeds:
  "\<forall>(k, sv) \<in> set reg. k \<noteq> z \<longrightarrow> (\<exists>cfg. GetConfig ops sv t = Inr cfg) \<Longrightarrow>
     \<exists>deps. listDependentLoop ops z t reg acc = Inr deps"
  by (induction reg arbitrary: acc) (auto split: sum.splits)

lemma listDependentLoop_distinct:
  "listDependentLoop ops z t reg acc = Inr deps \<Longrightarrow> distinct (map fst reg) \<Longrightarrow>
   distinct acc \<Longrightarrow> set acc \<inter> fst ` set reg = {} \<Longrightarrow>
   \<forall>(k, sv) \<in> set reg. \<forall>cfg. GetConfig ops sv t = Inr cfg \<longrightarrow> count_list (Dependencies cfg) z \<le> 1 \<Longrightarrow>
   distinct deps"
proof (induction reg arbitrary: acc)
  case Nil
  then show ?case by simp
next
  case (Cons kv reg)
  obtain k sv where kv: "kv = (k, sv)" by (cases kv)
  show ?case
  proof (cases "k = z")
    case True
    with Cons.prems kv have r: "listDependentLoop ops z t reg acc = Inr deps" by simp
    from Cons.prems kv show ?thesis
      by (intro Cons.IH [OF r]) auto
  next
    case False
    with Cons.prems(1) kv obtain cfg where c: "GetConfig ops sv t = Inr cfg"
      and r: "listDependentLoop ops z t reg (acc @ dependsOn k z (Dependencies cfg)) = Inr deps"
      by (auto split: sum.splits)
    from Cons.prems(5) kv c have "count_list (Dependencies cfg) z \<le> 1" by auto
    then have d: "dependsOn k z (Dependencies cfg) = (if z \<in> set (Dependencies cfg) then [k] else [])"
      by (rule dependsOn_count_le1)
    from Cons.prems kv d show ?thesis
      by (intro Cons.IH [OF r]) (auto split: if_splits)
  qed
qed


lemma testMgr_enumeration_set:
  "(\<forall>(k, sv) \<in> set (svcs t). k \<noteq> z \<longrightarrow> (\<exists>cfg. GetConfig ops sv t = Inr cfg)) \<longrightarrow>
     (\<exists>deps. testMgr_listDependentServices ops z t = Inr deps
        \<and> set deps = declaring ops t (svcs t) z
        \<and> (distinct (map fst (svcs t))
             \<and> (\<forall>(k, sv) \<in> set (svcs t). \<forall>cfg. GetConfig ops sv t = Inr cfg
                    \<longrightarrow> count_list (Dependencies cfg) z \<le> 1)
             \<longrightarrow> distinct deps)
        \<and> (declaring ops t (svcs t) z = {} \<longrightarrow> deps = []))"
proof
  assume "\<forall>(k, sv) \<in> set (svcs t). k \<noteq> z \<longrightarrow> (\<exists>cfg. GetConfig ops sv t = Inr cfg)"
  from listDependentLoop_succeeds [OF this, of "[]"]
  obtain deps where d: "listDependentLoop ops z t (svcs t) [] = Inr deps" by blast
  from listDependentLoop_set [OF d]
  have s: "set deps = declaring ops t (svcs t) z" by simp
  have dd: "distinct (map fst (svcs t))
             \<and> (\<forall>(k, sv) \<in> set (svcs t). \<forall>cfg. GetConfig ops sv t = Inr cfg
                    \<longrightarrow> count_list (Dependencies cfg) z \<le> 1)
             \<longrightarrow> distinct deps"
  proof
    assume a: "distinct (map fst (svcs t))
             \<and> (\<forall>(k, sv) \<in> set (svcs t). \<forall>cfg. GetConfig ops sv t = Inr cfg
                    \<longrightarrow> count_list (Dependencies cfg) z \<le> 1)"
    show "distinct deps"
      by (rule listDependentLoop_distinct [OF d conjunct1 [OF a] _ _ conjunct2 [OF a]]) simp_all
  qed
  have de: "declaring ops t (svcs t) z = {} \<longrightarrow> deps = []"
  proof
    assume e: "declaring ops t (svcs t) z = {}"
    from s e have "set deps = {}" by (simp only:)
    then show "deps = []" by simp
  qed
  from d have d': "testMgr_listDependentServices ops z t = Inr deps"
    by (simp add: testMgr_listDependentServices_def)
  show "\<exists>deps. testMgr_listDependentServices ops z t = Inr deps
        \<and> set deps = declaring ops t (svcs t) z
        \<and> (distinct (map fst (svcs t))
             \<and> (\<forall>(k, sv) \<in> set (svcs t). \<forall>cfg. GetConfig ops sv t = Inr cfg
                    \<longrightarrow> count_list (Dependencies cfg) z \<le> 1)
             \<longrightarrow> distinct deps)
        \<and> (declaring ops t (svcs t) z = {} \<longrightarrow> deps = [])"
    by (rule exI [of _ deps]) (intro conjI d' s dd de)
qed


text \<open>
  C5, as stated, fails: a service that declares itself as a dependency has its name in
  its own dependency list, and the enumeration of the test double skips it.
\<close>

theorem listDependents_self_declared_counterexample:
  "map_of (svcs registry_self) ''Z'' = Some (FakePtr 0)
   \<and> fake_Config (FakePtr 0) registry_self
       = Inr \<lparr>BinaryPathName = [], Dependencies = [''Z'']\<rparr>
   \<and> testMgr_listDependentServices fake_ops ''Z'' registry_self = Inr []"
  by (simp add: fake_defs registry_defs)

text \<open>
  C5, amended. In the test double, when the configuration of every other service can be
  read, the enumeration for \<open>z\<close> succeeds and the names it returns are exactly the
  names, other than \<open>z\<close> itself, of the registered services whose dependency list
  contains \<open>z\<close>; every name comes once when the keys are distinct and no dependency list
  names \<open>z\<close> twice; with no such service the result is the empty list, not an error.
  In the real manager a successful system call that returns no service gives the empty
  list, not an error.
\<close>

theorem listDependents_enumerates:
  "((\<forall>(k, sv) \<in> set (svcs t). k \<noteq> z \<longrightarrow> (\<exists>cfg. GetConfig ops sv t = Inr cfg)) \<longrightarrow>
     (\<exists>deps. testMgr_listDependentServices ops z t = Inr deps
        \<and> set deps = declaring ops t (svcs t) z
        \<and> (distinct (map fst (svcs t))
             \<and> (\<forall>(k, sv) \<in> set (svcs t). \<forall>cfg. GetConfig ops sv t = Inr cfg
                    \<longrightarrow> count_list (Dependencies cfg) z \<le> 1)
             \<longrightarrow> distinct deps)
        \<and> (declaring ops t (svcs t) z = {} \<longrightarrow> deps = [])))
   \<and> (enumLoop api h 0 0 0 w = (Inr (len, 0, names), w', attempts) \<longrightarrow>
        manager_listDependentServices api h w = (Inr [], w', attempts))"
  using testMgr_enumeration_set [of t z ops]
  by (simp add: manager_listDependentServices_def)

theorem listDependents_enumerates_witness:
  "testMgr_listDependentServices fake_ops ''Z'' registry_xyzw = Inr [''X'', ''Y'']
   \<and> declaring fake_ops registry_xyzw (svcs registry_xyzw) ''Z'' = {''X'', ''Y''}
   \<and> testMgr_listDependentServices fake_ops ''X'' registry_xyzw = Inr []
   \<and> manager_listDependentServices sim_api 2 registry_xyzw
       = (Inr [], registry_xyzw,
          [(0, \<lparr>success = 1, err = Errno 0, bytesNeeded = 0,
                 returnedServiceCount = 0, decoded = []\<rparr>)])"
proof -
  have h: "\<forall>(k, sv) \<in> set (svcs registry_xyzw). k \<noteq> ''Z''
       \<longrightarrow> (\<exists>cfg. GetConfig fake_ops sv registry_xyzw = Inr cfg)"
    by (simp add: fake_defs registry_defs)
  have v: "testMgr_listDependentServices fake_ops ''Z'' registry_xyzw = Inr [''X'', ''Y'']"
    by (simp add: fake_defs registry_defs)
  have x: "testMgr_listDependentServices fake_ops ''X'' registry_xyzw = Inr []"
    by (simp add: fake_defs registry_defs)
  have e: "enumLoop sim_api 2 0 0 0 registry_xyzw
       = (Inr (0, 0, []), registry_xyzw,
          [(0, \<lparr>success = 1, err = Errno 0, bytesNeeded = 0,
                 returnedServiceCount = 0, decoded = []\<rparr>)])"
    by (simp add: fake_defs sim_defs registry_defs)
  note main = listDependents_enumerates [where t = registry_xyzw and z = "''Z''" and ops = fake_ops
      and api = sim_api and h = 2 and w = registry_xyzw and len = 0 and names = "[]"
      and w' = registry_xyzw
      and attempts = "[(0, \<lparr>success = 1, err = Errno 0, bytesNeeded = 0, returnedServiceCount = 0, decoded = []\<rparr>)]"]
  from main [THEN conjunct1, THEN mp, OF h] v
  have s: "declaring fake_ops registry_xyzw (svcs registry_xyzw) ''Z'' = {''X'', ''Y''}"
    by auto
  from main [THEN conjunct2, THEN mp, OF e]
  have m: "manager_listDependentServices sim_api 2 registry_xyzw
       = (Inr [], registry_xyzw,
          [(0, \<lparr>success = 1, err = Errno 0, bytesNeeded = 0,
                 returnedServiceCount = 0, decoded = []\<rparr>)])" .
  from v s x m show ?thesis by (intro conjI)
qed

text \<open>
  C10. In the test double the enumeration for a name never contains that name, whatever
  the service of that name declares. Hence, when no other service declares the name,
  the enumeration is empty and \<^verbatim>\<open>EnsureServiceState\<close> to stopped returns with fuel for
  one call only, that is, without any nested call.
\<close>

theorem listDependents_excludes_self:
  "(testMgr_listDependentServices ops n t = Inr deps \<longrightarrow> n \<notin> set deps)
   \<and> ((\<forall>(k, sv) \<in> set (svcs t). k \<noteq> name (objs t p) \<longrightarrow>
          (\<exists>cfg. GetConfig ops sv t = Inr cfg \<and> name (objs t p) \<notin> set (Dependencies cfg)))
        \<longrightarrow> testMgr_listDependentServices ops (name (objs t p)) t = Inr []
            \<and> testMgr_EnsureServiceState (Suc 0) ops (FakePtr p) Stopped t \<noteq> None)"
proof (intro conjI impI)
  assume "testMgr_listDependentServices ops n t = Inr deps"
  then have "listDependentLoop ops n t (svcs t) [] = Inr deps"
    by (simp add: testMgr_listDependentServices_def)
  from listDependentLoop_set [OF this] show "n \<notin> set deps" by simp
next
  assume a: "\<forall>(k, sv) \<in> set (svcs t). k \<noteq> name (objs t p) \<longrightarrow>
          (\<exists>cfg. GetConfig ops sv t = Inr cfg \<and> name (objs t p) \<notin> set (Dependencies cfg))"
  then have "\<forall>(k, sv) \<in> set (svcs t). k \<noteq> name (objs t p) \<longrightarrow>
          (\<exists>cfg. GetConfig ops sv t = Inr cfg)"
    by fastforce
  from listDependentLoop_succeeds [OF this, of "[]"]
  obtain deps' where d: "listDependentLoop ops (name (objs t p)) t (svcs t) [] = Inr deps'"
    by blast
  from a have "declaring ops t (svcs t) (name (objs t p)) = {}"
    by fastforce
  with listDependentLoop_set [OF d] have "set deps' = {}" by (simp only: set_simps Un_empty_left)
  then have "deps' = []" by simp
  with d show l: "testMgr_listDependentServices ops (name (objs t p)) t = Inr []"
    by (simp add: testMgr_listDependentServices_def)
  show "testMgr_EnsureServiceState (Suc 0) ops (FakePtr p) Stopped t \<noteq> None"
    by (simp add: l split: sum.splits prod.splits)
qed

theorem listDependents_excludes_self_witness:
  "testMgr_listDependentServices fake_ops ''Z'' registry_self = Inr []
   \<and> ''Z'' \<notin> set []
   \<and> ''Z'' \<in> set (Dependencies (config (objs registry_self 0)))
   \<and> testMgr_EnsureServiceState (Suc 0) fake_ops (FakePtr 0) Stopped registry_self \<noteq> None"
proof -
  have v: "testMgr_listDependentServices fake_ops ''Z'' registry_self = Inr []"
    by (simp add: fake_defs registry_defs)
  have a: "\<forall>(k, sv) \<in> set (svcs registry_self). k \<noteq> name (objs registry_self 0) \<longrightarrow>
          (\<exists>cfg. GetConfig fake_ops sv registry_self = Inr cfg
                 \<and> name (objs registry_self 0) \<notin> set (Dependencies cfg))"
    by (simp add: fake_defs registry_defs)
  have z: "''Z'' \<in> set (Dependencies (config (objs registry_self 0)))"
    by (simp add: registry_defs)
  note main = listDependents_excludes_self [where ops = fake_ops and t = registry_self
      and n = "''Z''" and deps = "[]" and p = 0]
  from main [THEN conjunct1, THEN mp, OF v] have c1: "''Z'' \<notin> set []" .
  from main [THEN conjunct2, THEN mp, OF a]
  have c2: "testMgr_EnsureServiceState (Suc 0) fake_ops (FakePtr 0) Stopped registry_self \<noteq> None"
    by simp
  from v c1 z c2 show ?thesis by (intro conjI)
qed

subsection \<open>What the stop calls never request\<close>

lemma WaitForState_trace: "WaitForState ops dl k s t w = (e, w', tr) \<Longrightarrow> set tr \<subseteq> {EvQuery s}"
proof (induction k arbitrary: w tr)
  case 0
  then show ?case by simp
next
  case (Suc k)
  then show ?case
    by (fastforce split: sum.splits if_splits prod.splits)
qed

lemma testMgr_stopDependents_no_remove:
  assumes IH: "\<forall>s st t e t' tr. testMgr_EnsureServiceState n ops s st t = Some (e, t', tr)
                 \<longrightarrow> EvRemove nm \<notin> set tr"
  shows "testMgr_stopDependents n ops ds t = Some (e, t', tr) \<Longrightarrow> EvRemove nm \<notin> set tr"
proof (induction ds arbitrary: t e t' tr)
  case Nil
  then show ?case by simp
next
  case (Cons d ds)
  from Cons.prems IH show ?case
    by (auto split: sum.splits prod.splits option.splits dest: Cons.IH)
qed

lemma testMgr_trace_no_remove:
  "testMgr_EnsureServiceState n ops s st t = Some (e, t', tr) \<Longrightarrow> EvRemove nm \<notin> set tr"
proof (induction n arbitrary: s st t e t' tr)
  case 0
  then show ?case by simp
next
  case (Suc n)
  from Suc.IH have "\<forall>s st t e t' tr. testMgr_EnsureServiceState n ops s st t = Some (e, t', tr)
                 \<longrightarrow> EvRemove nm \<notin> set tr"
    by blast
  note inner = testMgr_stopDependents_no_remove [OF this]
  from Suc.prems show ?case
    by (auto split: sum.splits if_splits prod.splits option.splits Service.splits
             dest: inner)
qed

lemma manager_stopDependents_no_delete:
  assumes IH: "\<forall>s st w e w' tr. manager_EnsureServiceState n ops api s st w = Some (e, w', tr)
                 \<longrightarrow> EvDelete x \<notin> set tr"
  shows "manager_stopDependents n ops api ds w = Some (e, w', tr) \<Longrightarrow> EvDelete x \<notin> set tr"
proof (induction ds arbitrary: w e w' tr)
  case Nil
  then show ?case by simp
next
  case (Cons d ds)
  from Cons.prems IH show ?case
    by (auto simp: manager_OpenService_def
             split: sum.splits prod.splits option.splits if_splits dest: Cons.IH)
qed

lemma manager_trace_no_delete:
  "manager_EnsureServiceState n ops api s st w = Some (e, w', tr) \<Longrightarrow> EvDelete x \<notin> set tr"
proof (induction n arbitrary: s st w e w' tr)
  case 0
  then show ?case by simp
next
  case (Suc n)
  from Suc.IH have "\<forall>s st w e w' tr. manager_EnsureServiceState n ops api s st w = Some (e, w', tr)
                 \<longrightarrow> EvDelete x \<notin> set tr"
    by blast
  note inner = manager_stopDependents_no_delete [OF this]
  from Suc.prems show ?case
    by (auto split: sum.splits if_splits prod.splits option.splits Service.splits
             dest: inner dest!: WaitForState_trace)
qed


subsection \<open>The resize loop of the real enumeration\<close>

lemma enumLoop_attempts_nonempty: "snd (snd (enumLoop api h len bn cnt w)) \<noteq> []"
  by (subst enumLoop.simps) (simp split: prod.splits del: enumLoop.simps)

lemma enumLoop_hd: "hd (snd (snd (enumLoop api h len bn cnt w))) = 
   (len, fst (enumDependentServicesSyscall api h SERVICE_STATE_ALL len bn cnt w))"
  by (subst enumLoop.simps) (simp split: prod.splits del: enumLoop.simps)

lemma enumLoop_protocol:
  "resize_protocol (snd (snd (enumLoop api h len bn cnt w)))"
proof (induction api h len bn cnt w rule: enumLoop.induct)
  case (1 api h len bn cnt w)
  obtain r w' where s: "enumDependentServicesSyscall api h SERVICE_STATE_ALL len bn cnt w = (r, w')"
    by (cases "enumDependentServicesSyscall api h SERVICE_STATE_ALL len bn cnt w")
  show ?case
  proof (cases "success r \<noteq> 0 \<or> err r \<noteq> ERROR_MORE_DATA \<or> bytesNeeded r \<le> len")
    case True
    with s show ?thesis
      by (subst enumLoop.simps) (auto simp del: enumLoop.simps)
  next
    case False
    let ?rec = "enumLoop api h (bytesNeeded r) (bytesNeeded r) (returnedServiceCount r) w'"
    from False s "1.IH" [of r w'] have ih: "resize_protocol (snd (snd ?rec))"
      by simp
    obtain a rest where ar: "snd (snd ?rec) = a # rest"
      using enumLoop_attempts_nonempty [of api h "bytesNeeded r" "bytesNeeded r" "returnedServiceCount r" w']
      by (cases "snd (snd ?rec)") auto
    from enumLoop_hd [of api h "bytesNeeded r" "bytesNeeded r" "returnedServiceCount r" w'] ar
    have "fst a = bytesNeeded r" by simp
    then obtain r' where a: "a = (bytesNeeded r, r')" by (cases a) auto
    have eq: "snd (snd (enumLoop api h len bn cnt w)) = (len, r) # snd (snd ?rec)"
      using s False by (subst enumLoop.simps) (simp split: prod.splits del: enumLoop.simps)
    from ih ar a False show ?thesis
      unfolding eq by (simp add: not_le)
  qed
qed

lemma enumLoop_length:
  "length (snd (snd (enumLoop api h len bn cnt w))) \<le> 2 ^ 32 - unat len"
proof (induction api h len bn cnt w rule: enumLoop.induct)
  case (1 api h len bn cnt w)
  obtain r w' where s: "enumDependentServicesSyscall api h SERVICE_STATE_ALL len bn cnt w = (r, w')"
    by (cases "enumDependentServicesSyscall api h SERVICE_STATE_ALL len bn cnt w")
  have lt: "unat len < 2 ^ 32"
    using unsigned_less [of len] by simp
  show ?case
  proof (cases "success r \<noteq> 0 \<or> err r \<noteq> ERROR_MORE_DATA \<or> bytesNeeded r \<le> len")
    case True
    with s lt show ?thesis
      by (subst enumLoop.simps) (auto simp del: enumLoop.simps)
  next
    case False
    let ?rec = "enumLoop api h (bytesNeeded r) (bytesNeeded r) (returnedServiceCount r) w'"
    from False s "1.IH" [of r w']
    have ih: "length (snd (snd ?rec)) \<le> 2 ^ 32 - unat (bytesNeeded r)"
      by simp
    from False have "unat len < unat (bytesNeeded r)"
      by (simp add: word_less_nat_alt not_le)
    moreover have "unat (bytesNeeded r) < 2 ^ 32"
      using unsigned_less [of "bytesNeeded r"] by simp
    moreover have eq: "snd (snd (enumLoop api h len bn cnt w)) = (len, r) # snd (snd ?rec)"
      using s False by (subst enumLoop.simps) (simp split: prod.splits del: enumLoop.simps)
    ultimately show ?thesis
      using ih unfolding eq by simp
  qed
qed


lemma enumLoop_outcome:
  "fst (enumLoop api h len bn cnt w) =
     (case last (snd (snd (enumLoop api h len bn cnt w))) of (n, r) \<Rightarrow>
        if success r \<noteq> 0 then Inr (n, returnedServiceCount r, decoded r)
        else if err r \<noteq> ERROR_MORE_DATA then Inl (UnexpectedEnumError (err r))
        else Inl ERROR_MORE_DATA)"
proof (induction api h len bn cnt w rule: enumLoop.induct)
  case (1 api h len bn cnt w)
  obtain r w' where s: "enumDependentServicesSyscall api h SERVICE_STATE_ALL len bn cnt w = (r, w')"
    by (cases "enumDependentServicesSyscall api h SERVICE_STATE_ALL len bn cnt w")
  show ?case
  proof (cases "success r \<noteq> 0 \<or> err r \<noteq> ERROR_MORE_DATA \<or> bytesNeeded r \<le> len")
    case True
    with s show ?thesis
      by (subst (1 2) enumLoop.simps) (auto simp del: enumLoop.simps)
  next
    case False
    let ?rec = "enumLoop api h (bytesNeeded r) (bytesNeeded r) (returnedServiceCount r) w'"
    note ih = "1.IH" [of r w', OF s [symmetric]]
    have ne: "snd (snd ?rec) \<noteq> []"
      by (rule enumLoop_attempts_nonempty)
    have eq: "enumLoop api h len bn cnt w
                = (fst ?rec, fst (snd ?rec), (len, r) # snd (snd ?rec))"
      using s False by (subst enumLoop.simps) (simp split: prod.splits del: enumLoop.simps)
    from False ih ne show ?thesis
      unfolding eq by simp
  qed
qed

lemma greedy_step:
  "enumDependentServicesSyscall greedy_api h flt len bn cnt w
     = (\<lparr>success = 0, err = ERROR_MORE_DATA, bytesNeeded = len + 1,
         returnedServiceCount = 0, decoded = []\<rparr>, w)"
  by (simp add: greedy_api_def sim_api_def)

lemma greedy_attempts:
  "length (snd (snd (enumLoop greedy_api h len bn cnt w))) = 2 ^ 32 - unat len"
proof (induction "2 ^ 32 - unat len" arbitrary: len bn cnt w rule: less_induct)
  case less
  have lt: "unat len < 2 ^ 32"
    using unsigned_less [of len] by simp
  show ?case
  proof (cases "len + 1 = 0")
    case True
    then have "len = - 1"
      by (simp add: eq_neg_iff_add_eq_0)
    then have u: "unat len = 2 ^ 32 - 1"
      using unat_minus_one [of "0 :: 32 word"] by (simp add: unsigned_minus_1_eq_mask mask_eq_exp_minus_1)
    from True have "snd (snd (enumLoop greedy_api h len bn cnt w))
        = [(len, \<lparr>success = 0, err = ERROR_MORE_DATA, bytesNeeded = len + 1,
                  returnedServiceCount = 0, decoded = []\<rparr>)]"
      by (subst enumLoop.simps) (simp add: greedy_step del: enumLoop.simps)
    with u show ?thesis by simp
  next
    case False
    then have su: "unat (len + 1) = Suc (unat len)"
      by (simp add: unatSuc add.commute)
    then have gt: "\<not> len + 1 \<le> len"
      by (simp add: word_le_nat_alt)
    have lt': "unat (len + 1) < 2 ^ 32"
      using unsigned_less [of "len + 1"] by simp
    have eq: "snd (snd (enumLoop greedy_api h len bn cnt w))
        = (len, \<lparr>success = 0, err = ERROR_MORE_DATA, bytesNeeded = len + 1,
                  returnedServiceCount = 0, decoded = []\<rparr>)
          # snd (snd (enumLoop greedy_api h (len + 1) (len + 1) 0 w))"
      using gt by (subst enumLoop.simps) (simp add: greedy_step split: prod.splits del: enumLoop.simps)
    have "length (snd (snd (enumLoop greedy_api h (len + 1) (len + 1) 0 w)))
            = 2 ^ 32 - unat (len + 1)"
      using su lt lt' by (intro less) simp
    with su lt' show ?thesis
      unfolding eq by simp
  qed
qed


text \<open>
  C8, as stated, fails: the loop has a third exit. When the system call fails with
  "more data" and the reported size does not exceed the buffer, the loop returns that
  error instead of retrying.
\<close>

theorem resize_loop_exit_counterexample:
  "manager_listDependentServices badsize_api 0 registry_self
     = (Inl ERROR_MORE_DATA, registry_self,
        [(0, \<lparr>success = 0, err = ERROR_MORE_DATA, bytesNeeded = 0,
              returnedServiceCount = 0, decoded = []\<rparr>)])"
  by (simp add: manager_listDependentServices_def badsize_api_def sim_api_def)

text \<open>
  C8, amended. The attempts of the loop follow the resize protocol: every attempt but the
  last failed with "more data" and reported a size larger than its buffer, and the next
  attempt used a buffer of exactly that size; the loop ends on success, on another error
  (returned wrapped), or on "more data" with a reported size that does not exceed the
  buffer (that error is returned). The first attempt uses the given size. No counter
  limits the attempts, but since the 32-bit size grows with every retry there are at most
  \<open>2 ^ 32 - len\<close> of them, and a system call that always asks for one byte more is
  tried exactly that often.
\<close>

theorem resize_loop_protocol:
  "resize_protocol (snd (snd (enumLoop api h len bn cnt w)))
   \<and> fst (hd (snd (snd (enumLoop api h len bn cnt w)))) = len
   \<and> length (snd (snd (enumLoop api h len bn cnt w))) \<le> 2 ^ 32 - unat len
   \<and> fst (enumLoop api h len bn cnt w) =
       (case last (snd (snd (enumLoop api h len bn cnt w))) of (n, r) \<Rightarrow>
          if success r \<noteq> 0 then Inr (n, returnedServiceCount r, decoded r)
          else if err r \<noteq> ERROR_MORE_DATA then Inl (UnexpectedEnumError (err r))
          else Inl ERROR_MORE_DATA)
   \<and> length (snd (snd (enumLoop greedy_api h len bn cnt t))) = 2 ^ 32 - unat len"
  by (intro conjI enumLoop_protocol enumLoop_length enumLoop_outcome greedy_attempts)
     (simp add: enumLoop_hd del: enumLoop.simps)

theorem resize_loop_protocol_witness:
  "resize_protocol (snd (snd (enumLoop sim_api 3 0 0 0 registry_xyzw)))
   \<and> map fst (snd (snd (enumLoop sim_api 3 0 0 0 registry_xyzw))) = [0, 72]
   \<and> fst (enumLoop sim_api 3 0 0 0 registry_xyzw) = Inr (72, 2, [''X'', ''Y''])"
proof -
  have e: "enumLoop sim_api 3 0 0 0 registry_xyzw
             = (Inr (72, 2, [''X'', ''Y'']), registry_xyzw,
                [(0, \<lparr>success = 0, err = ERROR_MORE_DATA, bytesNeeded = 72,
                      returnedServiceCount = 0, decoded = []\<rparr>),
                 (72, \<lparr>success = 1, err = Errno 0, bytesNeeded = 72,
                       returnedServiceCount = 2, decoded = [''X'', ''Y'']\<rparr>)])"
    by (simp add: fake_defs sim_defs registry_defs ERROR_MORE_DATA_def)
  from resize_loop_protocol [of sim_api 3 0 0 0 registry_xyzw]
  have "resize_protocol (snd (snd (enumLoop sim_api 3 0 0 0 registry_xyzw)))"
    by (rule conjunct1)
  with e show ?thesis by simp
qed

subsection \<open>Waiting for the state change\<close>

lemma WaitForState_timeout:
  "\<forall>k<budget. \<exists>st. Query ops s ((dl ^^ k) w) = Inr st \<and> State st \<noteq> t \<Longrightarrow>
     WaitForState ops dl budget s t w
       = (Some TransitionTimeout, (dl ^^ budget) w, replicate budget (EvQuery s))"
proof (induction budget arbitrary: w)
  case 0
  then show ?case by simp
next
  case (Suc budget)
  from Suc.prems have "\<exists>st. Query ops s ((dl ^^ 0) w) = Inr st \<and> State st \<noteq> t"
    by blast
  then obtain st where q: "Query ops s w = Inr st" "State st \<noteq> t"
    by auto
  have "\<forall>k<budget. \<exists>st. Query ops s ((dl ^^ k) (dl w)) = Inr st \<and> State st \<noteq> t"
  proof (intro allI impI)
    fix k assume "k < budget"
    then have "Suc k < Suc budget" by simp
    with Suc.prems have "\<exists>st. Query ops s ((dl ^^ Suc k) w) = Inr st \<and> State st \<noteq> t"
      by blast
    then show "\<exists>st. Query ops s ((dl ^^ k) (dl w)) = Inr st \<and> State st \<noteq> t"
      by (simp add: funpow_swap1)
  qed
  from Suc.IH [OF this] q show ?case
    by (simp add: funpow_swap1)
qed

lemma WaitForState_bounded: "length (snd (snd (WaitForState ops dl budget s t w))) \<le> budget"
proof (induction budget arbitrary: w)
  case 0
  then show ?case by simp
next
  case (Suc budget)
  have "length (snd (snd (WaitForState ops dl budget s t (dl w)))) \<le> budget"
    by (rule Suc.IH)
  then show ?case
    by (auto split: sum.splits prod.splits)
qed

lemma funpow_no_delay: "((\<lambda>t. t) ^^ k) w = w"
  by (induction k) simp_all

text \<open>
  C2, as stated, fails for the test double: it returns what \<^verbatim>\<open>Start\<close> or \<^verbatim>\<open>Control\<close>
  returned and makes no query after the request. Here a running service is stopped; the
  call returns success, and its only query came before the request and reported the
  state running.
\<close>

theorem testMgr_returns_without_poll_counterexample:
  "fake_Query (FakePtr 0) (registry_chain Running) = Inr \<lparr>State = Running\<rparr>
   \<and> fst (the (testMgr_EnsureServiceState (Suc 0) fake_ops (FakePtr 0) Stopped
                 (registry_chain Running))) = None
   \<and> snd (snd (the (testMgr_EnsureServiceState (Suc 0) fake_ops (FakePtr 0) Stopped
                      (registry_chain Running))))
       = [EvEnter (FakePtr 0) Stopped, EvQuery (FakePtr 0), EvControl (FakePtr 0) Stop,
          EvExit (FakePtr 0) Stopped None]"
  by (simp add: fake_defs registry_defs state_defs)

text \<open>
  C2, amended. The real manager returns success only after a query of the service has
  reported the target state, that query being the last request of the call. When the
  start (or, after the dependents have been stopped, the stop control) was accepted and
  no poll within the budget reports the target state, the call returns the
  transition-timeout error after exactly that many polls; in every case the wait makes
  no more polls than the budget. The test double does not poll: it returns the result
  of \<^verbatim>\<open>Start\<close> or \<^verbatim>\<open>Control\<close> right after the request.
\<close>

theorem success_after_poll_or_timeout:
  "(manager_EnsureServiceState fuel ops api s target w = Some (None, w', tr) \<longrightarrow>
      (\<exists>st. Query ops s w' = Inr st \<and> State st = target)
      \<and> (\<exists>pre. tr = pre @ [EvQuery s, EvExit s target None]))
   \<and> (Query ops s w = Inr st0 \<and> State st0 \<noteq> Running \<and> Start ops s w = (None, w1)
        \<and> (\<forall>k<pollBudget api.
              \<exists>st. Query ops s ((delay api ^^ k) w1) = Inr st \<and> State st \<noteq> Running) \<longrightarrow>
      manager_EnsureServiceState (Suc n) ops api s Running w
        = Some (Some TransitionTimeout, (delay api ^^ pollBudget api) w1,
                [EvEnter s Running, EvQuery s, EvStart s]
                  @ replicate (pollBudget api) (EvQuery s)
                  @ [EvExit s Running (Some TransitionTimeout)]))
   \<and> (Query ops (MgrService h) w = Inr st0 \<and> State st0 \<noteq> Stopped
        \<and> manager_listDependentServices api h w = (Inr deps, w1, attempts)
        \<and> manager_stopDependents n ops api deps w1 = Some (None, w2, pre)
        \<and> Control ops (MgrService h) Stop w2 = (None, w3)
        \<and> (\<forall>k<pollBudget api.
              \<exists>st. Query ops (MgrService h) ((delay api ^^ k) w3) = Inr st
                   \<and> State st \<noteq> Stopped) \<longrightarrow>
      manager_EnsureServiceState (Suc n) ops api (MgrService h) Stopped w
        = Some (Some TransitionTimeout, (delay api ^^ pollBudget api) w3,
                [EvEnter (MgrService h) Stopped, EvQuery (MgrService h)] @ pre
                  @ [EvControl (MgrService h) Stop]
                  @ replicate (pollBudget api) (EvQuery (MgrService h))
                  @ [EvExit (MgrService h) Stopped (Some TransitionTimeout)]))
   \<and> (Query fops s t = Inr st0 \<and> State st0 \<noteq> Running \<longrightarrow>
      testMgr_EnsureServiceState (Suc n) fops s Running t
        = Some (fst (Start fops s t), snd (Start fops s t),
                [EvEnter s Running, EvQuery s, EvStart s,
                 EvExit s Running (fst (Start fops s t))]))
   \<and> (Query fops (FakePtr p) t = Inr st0 \<and> State st0 \<noteq> Stopped
        \<and> testMgr_listDependentServices fops (name (objs t p)) t = Inr deps
        \<and> testMgr_stopDependents n fops deps t = Some (None, t1, pre) \<longrightarrow>
      testMgr_EnsureServiceState (Suc n) fops (FakePtr p) Stopped t
        = Some (fst (Control fops (FakePtr p) Stop t1), snd (Control fops (FakePtr p) Stop t1),
                [EvEnter (FakePtr p) Stopped, EvQuery (FakePtr p)] @ pre
                  @ [EvControl (FakePtr p) Stop,
                     EvExit (FakePtr p) Stopped (fst (Control fops (FakePtr p) Stop t1))]))
   \<and> length (snd (snd (WaitForState ops (delay api) (pollBudget api) s target w)))
       \<le> pollBudget api"
proof (intro conjI impI)
  assume "manager_EnsureServiceState fuel ops api s target w = Some (None, w', tr)"
  from manager_success_reports_target [OF this]
  show "\<exists>st. Query ops s w' = Inr st \<and> State st = target"
    and "\<exists>pre. tr = pre @ [EvQuery s, EvExit s target None]"
    by blast+
next
  assume a: "Query ops s w = Inr st0 \<and> State st0 \<noteq> Running \<and> Start ops s w = (None, w1)
        \<and> (\<forall>k<pollBudget api.
              \<exists>st. Query ops s ((delay api ^^ k) w1) = Inr st \<and> State st \<noteq> Running)"
  then have "WaitForState ops (delay api) (pollBudget api) s Running w1
       = (Some TransitionTimeout, (delay api ^^ pollBudget api) w1,
          replicate (pollBudget api) (EvQuery s))"
    by (intro WaitForState_timeout) blast
  with a show "manager_EnsureServiceState (Suc n) ops api s Running w
        = Some (Some TransitionTimeout, (delay api ^^ pollBudget api) w1,
                [EvEnter s Running, EvQuery s, EvStart s]
                  @ replicate (pollBudget api) (EvQuery s)
                  @ [EvExit s Running (Some TransitionTimeout)])"
    by simp
next
  assume a: "Query ops (MgrService h) w = Inr st0 \<and> State st0 \<noteq> Stopped
        \<and> manager_listDependentServices api h w = (Inr deps, w1, attempts)
        \<and> manager_stopDependents n ops api deps w1 = Some (None, w2, pre)
        \<and> Control ops (MgrService h) Stop w2 = (None, w3)
        \<and> (\<forall>k<pollBudget api.
              \<exists>st. Query ops (MgrService h) ((delay api ^^ k) w3) = Inr st
                   \<and> State st \<noteq> Stopped)"
  then have "WaitForState ops (delay api) (pollBudget api) (MgrService h) Stopped w3
       = (Some TransitionTimeout, (delay api ^^ pollBudget api) w3,
          replicate (pollBudget api) (EvQuery (MgrService h)))"
    by (intro WaitForState_timeout) blast
  moreover have "Stopped \<noteq> Running"
    by (simp add: state_defs)
  ultimately show "manager_EnsureServiceState (Suc n) ops api (MgrService h) Stopped w
        = Some (Some TransitionTimeout, (delay api ^^ pollBudget api) w3,
                [EvEnter (MgrService h) Stopped, EvQuery (MgrService h)] @ pre
                  @ [EvControl (MgrService h) Stop]
                  @ replicate (pollBudget api) (EvQuery (MgrService h))
                  @ [EvExit (MgrService h) Stopped (Some TransitionTimeout)])"
    using a by simp
next
  assume "Query fops s t = Inr st0 \<and> State st0 \<noteq> Running"
  then show "testMgr_EnsureServiceState (Suc n) fops s Running t
        = Some (fst (Start fops s t), snd (Start fops s t),
                [EvEnter s Running, EvQuery s, EvStart s,
                 EvExit s Running (fst (Start fops s t))])"
    by (simp split: prod.splits)
next
  assume a: "Query fops (FakePtr p) t = Inr st0 \<and> State st0 \<noteq> Stopped
        \<and> testMgr_listDependentServices fops (name (objs t p)) t = Inr deps
        \<and> testMgr_stopDependents n fops deps t = Some (None, t1, pre)"
  have "Stopped \<noteq> Running"
    by (simp add: state_defs)
  with a show "testMgr_EnsureServiceState (Suc n) fops (FakePtr p) Stopped t
        = Some (fst (Control fops (FakePtr p) Stop t1), snd (Control fops (FakePtr p) Stop t1),
                [EvEnter (FakePtr p) Stopped, EvQuery (FakePtr p)] @ pre
                  @ [EvControl (FakePtr p) Stop,
                     EvExit (FakePtr p) Stopped (fst (Control fops (FakePtr p) Stop t1))])"
    by (simp split: prod.splits)
next
  show "length (snd (snd (WaitForState ops (delay api) (pollBudget api) s target w)))
       \<le> pollBudget api"
    by (rule WaitForState_bounded)
qed


theorem success_after_poll_or_timeout_witness:
  "(\<exists>w' tr. manager_EnsureServiceState (Suc 0) sim_ops sim_api (MgrService 0) Stopped
               (registry_chain Running) = Some (None, w', tr)
        \<and> Query sim_ops (MgrService 0) w' = Inr \<lparr>State = Stopped\<rparr>
        \<and> (\<exists>pre. tr = pre @ [EvQuery (MgrService 0), EvExit (MgrService 0) Stopped None]))
   \<and> fst (the (manager_EnsureServiceState (Suc 0) sim_ops stuck_api (MgrService 1) Running
                 (registry_chain Stopped))) = Some TransitionTimeout
   \<and> fst (the (manager_EnsureServiceState (Suc 0) sim_ops stuck_api (MgrService 0) Stopped
                 (registry_chain Stopped))) = Some TransitionTimeout
   \<and> snd (snd (the (testMgr_EnsureServiceState (Suc 0) fake_ops (FakePtr 1) Running
                 (registry_chain Stopped))))
       = [EvEnter (FakePtr 1) Running, EvQuery (FakePtr 1), EvStart (FakePtr 1),
          EvExit (FakePtr 1) Running None]
   \<and> snd (snd (the (testMgr_EnsureServiceState (Suc 0) fake_ops (FakePtr 0) Stopped
                 (registry_chain Stopped))))
       = [EvEnter (FakePtr 0) Stopped, EvQuery (FakePtr 0), EvControl (FakePtr 0) Stop,
          EvExit (FakePtr 0) Stopped None]"
proof -
  note main = success_after_poll_or_timeout
  let ?w = "registry_chain Stopped"
  have "\<exists>w' tr. manager_EnsureServiceState (Suc 0) sim_ops sim_api (MgrService 0) Stopped
            (registry_chain Running) = Some (None, w', tr)"
    by (simp add: fake_defs registry_defs state_defs sim_defs ERROR_MORE_DATA_def
          SERVICE_STATE_ALL_def numeral_3_eq_3)
  then obtain w' tr where r1: "manager_EnsureServiceState (Suc 0) sim_ops sim_api
            (MgrService 0) Stopped (registry_chain Running) = Some (None, w', tr)"
    by blast
  from main [THEN conjunct1, THEN mp, OF r1]
  have c1: "Query sim_ops (MgrService 0) w' = Inr \<lparr>State = Stopped\<rparr>
        \<and> (\<exists>pre. tr = pre @ [EvQuery (MgrService 0), EvExit (MgrService 0) Stopped None])"
    by auto
  have h2: "Query sim_ops (MgrService 1) ?w = Inr \<lparr>State = Stopped\<rparr>
        \<and> State \<lparr>State = Stopped\<rparr> \<noteq> Running
        \<and> Start sim_ops (MgrService 1) ?w = (None, fake_setState 1 StartPending ?w)
        \<and> (\<forall>k<pollBudget stuck_api.
              \<exists>st. Query sim_ops (MgrService 1)
                     ((delay stuck_api ^^ k) (fake_setState 1 StartPending ?w)) = Inr st
                   \<and> State st \<noteq> Running)"
    by (simp add: sim_defs registry_defs state_defs funpow_no_delay fake_setState_def)
  from main [THEN conjunct2, THEN conjunct1, THEN mp, OF h2, of 0]
  have c2: "fst (the (manager_EnsureServiceState (Suc 0) sim_ops stuck_api (MgrService 1) Running
                 (registry_chain Stopped))) = Some TransitionTimeout"
    by (simp only: option.sel fst_conv)
  have h3: "Query sim_ops (MgrService 0) ?w = Inr \<lparr>State = Running\<rparr>
        \<and> State \<lparr>State = Running\<rparr> \<noteq> Stopped
        \<and> manager_listDependentServices stuck_api 0 ?w
            = (Inr [], ?w, [(0, \<lparr>success = 1, err = Errno 0, bytesNeeded = 0,
                                  returnedServiceCount = 0, decoded = []\<rparr>)])
        \<and> manager_stopDependents 0 sim_ops stuck_api [] ?w = Some (None, ?w, [])
        \<and> Control sim_ops (MgrService 0) Stop ?w = (None, fake_setState 0 StopPending ?w)
        \<and> (\<forall>k<pollBudget stuck_api.
              \<exists>st. Query sim_ops (MgrService 0)
                     ((delay stuck_api ^^ k) (fake_setState 0 StopPending ?w)) = Inr st
                   \<and> State st \<noteq> Stopped)"
    by (simp add: sim_defs fake_defs registry_defs state_defs funpow_no_delay)
  from main [THEN conjunct2, THEN conjunct2, THEN conjunct1, THEN mp, OF h3]
  have c3: "fst (the (manager_EnsureServiceState (Suc 0) sim_ops stuck_api (MgrService 0) Stopped
                 (registry_chain Stopped))) = Some TransitionTimeout"
    by (simp only: option.sel fst_conv)
  have h4: "Query fake_ops (FakePtr 1) ?w = Inr \<lparr>State = Stopped\<rparr>
        \<and> State \<lparr>State = Stopped\<rparr> \<noteq> Running"
    by (simp add: fake_defs registry_defs state_defs)
  have s4: "fst (Start fake_ops (FakePtr 1) ?w) = None"
    by (simp add: fake_defs)
  from main [THEN conjunct2, THEN conjunct2, THEN conjunct2, THEN conjunct1, THEN mp, OF h4, of 0]
  have c4: "snd (snd (the (testMgr_EnsureServiceState (Suc 0) fake_ops (FakePtr 1) Running
                 (registry_chain Stopped))))
       = [EvEnter (FakePtr 1) Running, EvQuery (FakePtr 1), EvStart (FakePtr 1),
          EvExit (FakePtr 1) Running None]"
    by (simp only: option.sel snd_conv s4)
  have h5: "Query fake_ops (FakePtr 0) ?w = Inr \<lparr>State = Running\<rparr>
        \<and> State \<lparr>State = Running\<rparr> \<noteq> Stopped
        \<and> testMgr_listDependentServices fake_ops (name (objs ?w 0)) ?w = Inr []
        \<and> testMgr_stopDependents 0 fake_ops [] ?w = Some (None, ?w, [])"
    by (simp add: fake_defs registry_defs state_defs)
  have s5: "fst (Control fake_ops (FakePtr 0) Stop ?w) = None"
    by (simp add: fake_defs)
  from main [THEN conjunct2, THEN conjunct2, THEN conjunct2, THEN conjunct2, THEN conjunct1,
             THEN mp, OF h5]
  have c5: "snd (snd (the (testMgr_EnsureServiceState (Suc 0) fake_ops (FakePtr 0) Stopped
                 (registry_chain Stopped))))
       = [EvEnter (FakePtr 0) Stopped, EvQuery (FakePtr 0), EvControl (FakePtr 0) Stop,
          EvExit (FakePtr 0) Stopped None]"
    by (simp only: option.sel snd_conv s5 append.simps)
  show ?thesis
    apply (intro conjI)
        apply (rule exI [of _ w'], rule exI [of _ tr], rule conjI [OF r1 c1])
       apply (rule c2)
      apply (rule c3)
     apply (rule c4)
    apply (rule c5)
    done
qed


subsection \<open>Dependents are stopped first\<close>

lemma testMgr_frame:
  "testMgr_EnsureServiceState n ops s st t = Some (e, t', tr) \<Longrightarrow>
     \<exists>mid. tr = EvEnter s st # mid @ [EvExit s st e]"
  by (cases n) auto

lemma manager_frame:
  "manager_EnsureServiceState n ops api s st w = Some (None, w', tr) \<Longrightarrow>
     \<exists>mid. tr = EvEnter s st # mid @ [EvExit s st None]"
  by (cases n) (auto split: sum.splits if_splits prod.splits option.splits Service.splits)

lemma testMgr_stopDependents_success:
  "testMgr_stopDependents n ops ds t = Some (None, t1, pre) \<Longrightarrow>
     testMgr_dependents_stopped n ops ds t pre t1"
proof (induction ds arbitrary: t pre)
  case Nil
  then show ?case by simp
next
  case (Cons d ds)
  from Cons.prems obtain h t2 tr2 pre' where
    o: "testMgr_OpenService d t = Inr h"
    and e: "testMgr_EnsureServiceState n ops h Stopped t = Some (None, t2, tr2)"
    and r: "testMgr_stopDependents n ops ds t2 = Some (None, t1, pre')"
    and p: "pre = tr2 @ pre'"
    by (auto split: sum.splits option.splits prod.splits)
  from testMgr_frame [OF e] obtain mid where
    m: "tr2 = EvEnter h Stopped # mid @ [EvExit h Stopped None]" by blast
  from o e [unfolded m] p [unfolded m] Cons.IH [OF r]
  have "testMgr_OpenService d t = Inr h
        \<and> testMgr_EnsureServiceState n ops h Stopped t
            = Some (None, t2, EvEnter h Stopped # mid @ [EvExit h Stopped None])
        \<and> pre = (EvEnter h Stopped # mid @ [EvExit h Stopped None]) @ pre'
        \<and> testMgr_dependents_stopped n ops ds t2 pre' t1"
    by simp
  then show ?case
    unfolding testMgr_dependents_stopped.simps by blast
qed

lemma manager_stopDependents_success:
  "manager_stopDependents n ops api ds w = Some (None, w1, pre) \<Longrightarrow>
     manager_dependents_stopped n ops api ds w pre w1"
proof (induction ds arbitrary: w pre)
  case Nil
  then show ?case by simp
next
  case (Cons d ds)
  from Cons.prems obtain h w0 w2 tr2 pre' where
    o: "manager_OpenService api d w = (Inr h, w0)"
    and e: "manager_EnsureServiceState n ops api h Stopped w0 = Some (None, w2, tr2)"
    and r: "manager_stopDependents n ops api ds w2 = Some (None, w1, pre')"
    and p: "pre = tr2 @ pre'"
    by (auto split: sum.splits option.splits prod.splits if_splits)
  from manager_success_reports_target [OF e]
  have q: "\<exists>st. Query ops h w2 = Inr st \<and> State st = Stopped" by blast
  from manager_frame [OF e] obtain mid where
    m: "tr2 = EvEnter h Stopped # mid @ [EvExit h Stopped None]" by blast
  from o e [unfolded m] p [unfolded m] q Cons.IH [OF r]
  have "manager_OpenService api d w = (Inr h, w0)
        \<and> manager_EnsureServiceState n ops api h Stopped w0
            = Some (None, w2, EvEnter h Stopped # mid @ [EvExit h Stopped None])
        \<and> (\<exists>st. Query ops h w2 = Inr st \<and> State st = Stopped)
        \<and> pre = (EvEnter h Stopped # mid @ [EvExit h Stopped None]) @ pre'
        \<and> manager_dependents_stopped n ops api ds w2 pre' w1"
    by simp
  then show ?case
    unfolding manager_dependents_stopped.simps by blast
qed

lemma keeps_stopped_refl: "keeps_stopped t t"
  by (simp add: keeps_stopped_def)

lemma keeps_stopped_trans: "keeps_stopped t1 t2 \<Longrightarrow> keeps_stopped t2 t3 \<Longrightarrow> keeps_stopped t1 t3"
  by (simp add: keeps_stopped_def)

lemma testMgr_stopDependents_preserves:
  assumes r: "\<forall>t. R t t" and tr: "\<forall>a b c. R a b \<longrightarrow> R b c \<longrightarrow> R a c"
    and IH: "\<forall>s t e t' tr. testMgr_EnsureServiceState n ops s Stopped t = Some (e, t', tr)
                 \<longrightarrow> R t' t"
  shows "testMgr_stopDependents n ops ds t = Some (e, t', tr) \<Longrightarrow> R t' t"
proof (induction ds arbitrary: t e t' tr)
  case Nil
  then show ?case by (simp add: r)
next
  case (Cons d ds)
  show ?case
  proof (cases "testMgr_OpenService d t")
    case (Inl a)
    with Cons.prems show ?thesis by (simp add: r)
  next
    case (Inr h)
    with Cons.prems obtain r' t2 tr2 where
      c: "testMgr_EnsureServiceState n ops h Stopped t = Some (r', t2, tr2)"
      by (cases "testMgr_EnsureServiceState n ops h Stopped t") auto
    with IH have f: "R t2 t" by blast
    show ?thesis
    proof (cases r')
      case (Some er)
      with Cons.prems Inr c f show ?thesis by simp
    next
      case None
      with Cons.prems Inr c obtain tr3 where
        "testMgr_stopDependents n ops ds t2 = Some (e, t', tr3)"
        by (auto split: option.splits)
      from Cons.IH [OF this] f tr show ?thesis
        by blast
    qed
  qed
qed

lemma testMgr_Ensure_preserves:
  assumes r: "\<forall>t. R t t" and tr: "\<forall>a b c. R a b \<longrightarrow> R b c \<longrightarrow> R a c"
    and H: "\<forall>s t. R (snd (Control ops s Stop t)) t"
  shows "testMgr_EnsureServiceState n ops s Stopped t = Some (e, t', tr) \<Longrightarrow> R t' t"
proof (induction n arbitrary: s t e t' tr)
  case 0
  then show ?case by simp
next
  case (Suc n)
  from Suc.IH have "\<forall>s t e t' tr. testMgr_EnsureServiceState n ops s Stopped t = Some (e, t', tr)
                 \<longrightarrow> R t' t"
    by blast
  note inner = testMgr_stopDependents_preserves [where R = R, OF r tr this]
  have ns: "Stopped \<noteq> Running" by (simp add: state_defs)
  have ctl: "R t'' t" if "Control ops s' Stop t1 = (e', t'')" "R t1 t"
    for s' t1 e' t''
  proof -
    from H have "R (snd (Control ops s' Stop t1)) t1" by blast
    with that(1) have "R t'' t1" by simp
    with that(2) tr show ?thesis by blast
  qed
  from Suc.prems ns show ?case
    apply (auto split: sum.splits if_splits prod.splits option.splits Service.splits
             simp: r)
     apply (erule ctl, erule inner)
    apply (erule inner)
    done
qed

lemma keeps_stopped_refl': "\<forall>t. keeps_stopped t t"
  by (simp add: keeps_stopped_def)

lemma keeps_stopped_trans':
  "\<forall>a b c. keeps_stopped a b \<longrightarrow> keeps_stopped b c \<longrightarrow> keeps_stopped a c"
  by (simp add: keeps_stopped_def)

lemma fake_Control_keeps_stopped: "\<forall>s t. keeps_stopped (snd (Control fake_ops s Stop t)) t"
  by (simp add: keeps_stopped_def fake_defs split: Service.splits)

lemma fake_dependents_stopped:
  "testMgr_dependents_stopped n fake_ops ds t pre t1 \<Longrightarrow>
     keeps_stopped t1 t
     \<and> (\<forall>d\<in>set ds. \<exists>q. fsl_read d t1 = Some (FakePtr q)
                          \<and> State (status (objs t1 q)) = Stopped)"
proof (induction ds arbitrary: t pre)
  case Nil
  then show ?case by (simp add: keeps_stopped_refl)
next
  case (Cons d ds)
  from Cons.prems obtain h t2 tr2 rest where
    o: "testMgr_OpenService d t = Inr h"
    and e: "testMgr_EnsureServiceState n fake_ops h Stopped t = Some (None, t2, tr2)"
    and r: "testMgr_dependents_stopped n fake_ops ds t2 rest t1"
    unfolding testMgr_dependents_stopped.simps by blast
  from testMgr_Ensure_preserves [where R = keeps_stopped, OF keeps_stopped_refl' keeps_stopped_trans'
      fake_Control_keeps_stopped e]
  have k1: "keeps_stopped t2 t" .
  from Cons.IH [OF r] have k2: "keeps_stopped t1 t2"
    and rest: "\<forall>d\<in>set ds. \<exists>q. fsl_read d t1 = Some (FakePtr q)
                          \<and> State (status (objs t1 q)) = Stopped"
    by blast+
  from fake_success_reports_target [OF e] obtain q where
    h: "h = FakePtr q" and s2: "State (status (objs t2 q)) = Stopped"
    by (auto simp: fake_defs split: Service.splits)
  from o h have "fsl_read d t = Some (FakePtr q)"
    by (simp add: testMgr_OpenService_def split: option.splits)
  with k1 k2 have r1: "fsl_read d t1 = Some (FakePtr q)"
    by (simp add: keeps_stopped_def fsl_read_def)
  from s2 k2 have "State (status (objs t1 q)) = Stopped"
    by (simp add: keeps_stopped_def)
  with r1 rest k1 k2 show ?case
    by (auto intro: keeps_stopped_trans)
qed

lemma fake_stop_success:
  assumes a1: "testMgr_EnsureServiceState (Suc n) fake_ops (FakePtr p) Stopped t = Some (None, t', tr)"
    and a2: "Query fake_ops (FakePtr p) t = Inr st0" and a3: "State st0 \<noteq> Stopped"
    and a4: "testMgr_listDependentServices fake_ops (name (objs t p)) t = Inr deps"
  shows "\<exists>pre t1.
          tr = [EvEnter (FakePtr p) Stopped, EvQuery (FakePtr p)] @ pre
                 @ [EvControl (FakePtr p) Stop, EvExit (FakePtr p) Stopped None]
          \<and> testMgr_dependents_stopped n fake_ops deps t pre t1
          \<and> (\<forall>d\<in>set deps. \<exists>hd st. testMgr_OpenService d t1 = Inr hd
                                 \<and> Query fake_ops hd t1 = Inr st \<and> State st = Stopped)
          \<and> Control fake_ops (FakePtr p) Stop t1 = (None, t')
          \<and> (\<forall>d\<in>set deps. \<exists>hd st. testMgr_OpenService d t' = Inr hd
                                 \<and> Query fake_ops hd t' = Inr st \<and> State st = Stopped)
          \<and> (\<exists>st. Query fake_ops (FakePtr p) t' = Inr st \<and> State st = Stopped)"
proof -
  note a = a1 a2 a3 a4
  have ns: "Stopped \<noteq> Running" by (simp add: state_defs)
  from a ns obtain r t1 pre where l: "testMgr_stopDependents n fake_ops deps t = Some (r, t1, pre)"
    by (cases "testMgr_stopDependents n fake_ops deps t") auto
  from l a ns have r: "r = None"
    by (cases r) auto
  from l a ns r have tr: "tr = [EvEnter (FakePtr p) Stopped, EvQuery (FakePtr p)] @ pre
                 @ [EvControl (FakePtr p) Stop, EvExit (FakePtr p) Stopped None]"
    and c: "Control fake_ops (FakePtr p) Stop t1 = (None, t')"
    by (auto split: prod.splits)
  from testMgr_stopDependents_success [OF l [unfolded r]]
  have ds: "testMgr_dependents_stopped n fake_ops deps t pre t1" .
  from fake_dependents_stopped [OF ds]
  have s1: "\<forall>d\<in>set deps. \<exists>q. fsl_read d t1 = Some (FakePtr q)
                          \<and> State (status (objs t1 q)) = Stopped"
    by blast
  from c have t': "t' = fake_setState p Stopped t1"
    by (simp add: fake_defs)
  have o1: "\<forall>d\<in>set deps. \<exists>hd st. testMgr_OpenService d t1 = Inr hd
                                 \<and> Query fake_ops hd t1 = Inr st \<and> State st = Stopped"
    using s1 by (fastforce simp: testMgr_OpenService_def fake_defs)
  have o2: "\<forall>d\<in>set deps. \<exists>hd st. testMgr_OpenService d t' = Inr hd
                                 \<and> Query fake_ops hd t' = Inr st \<and> State st = Stopped"
    using s1 unfolding t'
    by (fastforce simp: testMgr_OpenService_def fake_defs fsl_read_def fake_setState_def)
  have o3: "\<exists>st. Query fake_ops (FakePtr p) t' = Inr st \<and> State st = Stopped"
    unfolding t' by (simp add: fake_defs fake_setState_def)
  from tr ds o1 c o2 o3 show ?thesis
    by blast
qed

lemma fake_Ensure_keeps_stopped:
  "testMgr_EnsureServiceState n fake_ops s Stopped t = Some (e, t', tr) \<Longrightarrow> keeps_stopped t' t"
  by (rule testMgr_Ensure_preserves [where R = keeps_stopped, OF keeps_stopped_refl'
        keeps_stopped_trans' fake_Control_keeps_stopped])

text \<open>
  C1, as stated, fails for dependents that are reached only through a dependent that is
  already stopped. In the chain where A depends on B and B on C, with A and C running
  and B stopped, stopping C in the test double queries B, finds it stopped and issues
  the stop control on C; no call is made for A, which transitively declares C, and A is
  still running afterwards.
\<close>

theorem dependents_not_descended_counterexample:
  "map_of (svcs (registry_chain Stopped)) ''A'' = Some (FakePtr 0)
   \<and> ''B'' \<in> set (Dependencies (config (objs (registry_chain Stopped) 0)))
   \<and> ''C'' \<in> set (Dependencies (config (objs (registry_chain Stopped) 1)))
   \<and> snd (snd (the (testMgr_EnsureServiceState (Suc (Suc 0)) fake_ops (FakePtr 2) Stopped
                      (registry_chain Stopped))))
       = [EvEnter (FakePtr 2) Stopped, EvQuery (FakePtr 2),
          EvEnter (FakePtr 1) Stopped, EvQuery (FakePtr 1), EvExit (FakePtr 1) Stopped None,
          EvControl (FakePtr 2) Stop, EvExit (FakePtr 2) Stopped None]
   \<and> fake_Query (FakePtr 0)
         (fst (snd (the (testMgr_EnsureServiceState (Suc (Suc 0)) fake_ops (FakePtr 2) Stopped
                           (registry_chain Stopped)))))
       = Inr \<lparr>State = Running\<rparr>"
  by (simp add: fake_defs registry_defs state_defs)

text \<open>
  C1, amended. Take a call of \<^verbatim>\<open>EnsureServiceState\<close> to stopped on a service that is not
  reported stopped and whose dependents were enumerated. If the call issues the stop
  control on the service, then before that request every enumerated dependent, in the
  order of the enumeration, was opened and a nested \<^verbatim>\<open>EnsureServiceState\<close> call to
  stopped on it ran from its entry to a successful return, each in the world the call
  before it left; the events between the first query and the control request are exactly
  the events of these nested calls, and the control request is made in the world the
  last of them left. In the real manager each nested call returned in a world where a
  query reports the dependent stopped. In the test double, with services that are
  stopped when the stop control returns, every enumerated dependent is reported stopped
  in the world where the control request is made, and after the call they and the service
  itself are reported stopped. Otherwise the loop over the dependents ended with an error
  (or, in the real manager, with a panic), which is what the call gives back, and the
  call makes no control request of its own. The nested calls are calls of the same
  function, so the rule holds at every depth; the dependents of a dependent that is
  reported stopped are not visited.
\<close>

theorem dependents_stopped_before_control:
  "(testMgr_EnsureServiceState (Suc n) fops (FakePtr p) Stopped t = Some (e, t', tr)
    \<and> Query fops (FakePtr p) t = Inr st0 \<and> State st0 \<noteq> Stopped
    \<and> testMgr_listDependentServices fops (name (objs t p)) t = Inr deps \<longrightarrow>
      (\<exists>pre.
         (\<exists>t1. tr = [EvEnter (FakePtr p) Stopped, EvQuery (FakePtr p)] @ pre
                 @ [EvControl (FakePtr p) Stop, EvExit (FakePtr p) Stopped e]
          \<and> testMgr_dependents_stopped n fops deps t pre t1
          \<and> Control fops (FakePtr p) Stop t1 = (e, t'))
         \<or> (tr = [EvEnter (FakePtr p) Stopped, EvQuery (FakePtr p)] @ pre
                    @ [EvExit (FakePtr p) Stopped e]
             \<and> e \<noteq> None
             \<and> testMgr_stopDependents n fops deps t = Some (e, t', pre))))
   \<and> (testMgr_EnsureServiceState (Suc n) fake_ops (FakePtr p) Stopped t = Some (None, t', tr)
    \<and> Query fake_ops (FakePtr p) t = Inr st0 \<and> State st0 \<noteq> Stopped
    \<and> testMgr_listDependentServices fake_ops (name (objs t p)) t = Inr deps \<longrightarrow>
      (\<exists>pre t1.
          tr = [EvEnter (FakePtr p) Stopped, EvQuery (FakePtr p)] @ pre
                 @ [EvControl (FakePtr p) Stop, EvExit (FakePtr p) Stopped None]
          \<and> testMgr_dependents_stopped n fake_ops deps t pre t1
          \<and> (\<forall>d\<in>set deps. \<exists>hd st. testMgr_OpenService d t1 = Inr hd
                                 \<and> Query fake_ops hd t1 = Inr st \<and> State st = Stopped)
          \<and> Control fake_ops (FakePtr p) Stop t1 = (None, t')
          \<and> (\<forall>d\<in>set deps. \<exists>hd st. testMgr_OpenService d t' = Inr hd
                                 \<and> Query fake_ops hd t' = Inr st \<and> State st = Stopped)
          \<and> (\<exists>st. Query fake_ops (FakePtr p) t' = Inr st \<and> State st = Stopped)))
   \<and> (manager_EnsureServiceState (Suc n) ops api (MgrService h) Stopped w = Some (e, w', tr)
    \<and> Query ops (MgrService h) w = Inr st0 \<and> State st0 \<noteq> Stopped
    \<and> manager_listDependentServices api h w = (Inr deps, w1, attempts) \<longrightarrow>
      (\<exists>pre.
         (\<exists>polls w2 w3 e1.
            tr = [EvEnter (MgrService h) Stopped, EvQuery (MgrService h)] @ pre
                 @ [EvControl (MgrService h) Stop] @ polls @ [EvExit (MgrService h) Stopped e]
          \<and> set polls \<subseteq> {EvQuery (MgrService h)}
          \<and> manager_dependents_stopped n ops api deps w1 pre w2
          \<and> Control ops (MgrService h) Stop w2 = (e1, w3)
          \<and> (case e1 of
                Some x \<Rightarrow> e = Some x \<and> w' = w3 \<and> polls = []
              | None \<Rightarrow> WaitForState ops (delay api) (pollBudget api) (MgrService h) Stopped w3
                          = (e, w', polls)))
         \<or> (tr = [EvEnter (MgrService h) Stopped, EvQuery (MgrService h)] @ pre
                    @ [EvExit (MgrService h) Stopped e]
             \<and> e \<noteq> None \<and> \<not> panicked pre
             \<and> manager_stopDependents n ops api deps w1 = Some (e, w', pre))
         \<or> (tr = [EvEnter (MgrService h) Stopped, EvQuery (MgrService h)] @ pre
             \<and> e = Some PanicIndexOutOfRange \<and> panicked pre
             \<and> (\<exists>e'. manager_stopDependents n ops api deps w1 = Some (Some e', w', pre)))))"
proof (intro conjI impI)
  assume a: "testMgr_EnsureServiceState (Suc n) fops (FakePtr p) Stopped t = Some (e, t', tr)
    \<and> Query fops (FakePtr p) t = Inr st0 \<and> State st0 \<noteq> Stopped
    \<and> testMgr_listDependentServices fops (name (objs t p)) t = Inr deps"
  have ns: "Stopped \<noteq> Running" by (simp add: state_defs)
  from a ns obtain r t1 pre where l: "testMgr_stopDependents n fops deps t = Some (r, t1, pre)"
    by (cases "testMgr_stopDependents n fops deps t") auto
  show "\<exists>pre.
         (\<exists>t1. tr = [EvEnter (FakePtr p) Stopped, EvQuery (FakePtr p)] @ pre
                 @ [EvControl (FakePtr p) Stop, EvExit (FakePtr p) Stopped e]
          \<and> testMgr_dependents_stopped n fops deps t pre t1
          \<and> Control fops (FakePtr p) Stop t1 = (e, t'))
         \<or> (tr = [EvEnter (FakePtr p) Stopped, EvQuery (FakePtr p)] @ pre
                    @ [EvExit (FakePtr p) Stopped e]
             \<and> e \<noteq> None
             \<and> testMgr_stopDependents n fops deps t = Some (e, t', pre))"
  proof (cases r)
    case None
    with l a ns have "tr = [EvEnter (FakePtr p) Stopped, EvQuery (FakePtr p)] @ pre
                 @ [EvControl (FakePtr p) Stop, EvExit (FakePtr p) Stopped e]
         \<and> Control fops (FakePtr p) Stop t1 = (e, t')"
      by (auto split: prod.splits)
    with testMgr_stopDependents_success [OF l [unfolded None]] show ?thesis
      by blast
  next
    case (Some er)
    with l a ns have "tr = [EvEnter (FakePtr p) Stopped, EvQuery (FakePtr p)] @ pre
                    @ [EvExit (FakePtr p) Stopped e]
             \<and> e \<noteq> None
             \<and> testMgr_stopDependents n fops deps t = Some (e, t', pre)"
      by auto
    then show ?thesis by blast
  qed
next
  assume "testMgr_EnsureServiceState (Suc n) fake_ops (FakePtr p) Stopped t = Some (None, t', tr)
    \<and> Query fake_ops (FakePtr p) t = Inr st0 \<and> State st0 \<noteq> Stopped
    \<and> testMgr_listDependentServices fake_ops (name (objs t p)) t = Inr deps"
  then show "\<exists>pre t1.
          tr = [EvEnter (FakePtr p) Stopped, EvQuery (FakePtr p)] @ pre
                 @ [EvControl (FakePtr p) Stop, EvExit (FakePtr p) Stopped None]
          \<and> testMgr_dependents_stopped n fake_ops deps t pre t1
          \<and> (\<forall>d\<in>set deps. \<exists>hd st. testMgr_OpenService d t1 = Inr hd
                                 \<and> Query fake_ops hd t1 = Inr st \<and> State st = Stopped)
          \<and> Control fake_ops (FakePtr p) Stop t1 = (None, t')
          \<and> (\<forall>d\<in>set deps. \<exists>hd st. testMgr_OpenService d t' = Inr hd
                                 \<and> Query fake_ops hd t' = Inr st \<and> State st = Stopped)
          \<and> (\<exists>st. Query fake_ops (FakePtr p) t' = Inr st \<and> State st = Stopped)"
    using fake_stop_success [of n p t t' tr st0 deps] by blast
next
  assume a: "manager_EnsureServiceState (Suc n) ops api (MgrService h) Stopped w = Some (e, w', tr)
    \<and> Query ops (MgrService h) w = Inr st0 \<and> State st0 \<noteq> Stopped
    \<and> manager_listDependentServices api h w = (Inr deps, w1, attempts)"
  have ns: "Stopped \<noteq> Running" by (simp add: state_defs)
  from a ns obtain r w2 pre where l: "manager_stopDependents n ops api deps w1 = Some (r, w2, pre)"
    by (cases "manager_stopDependents n ops api deps w1") auto
  show "\<exists>pre.
         (\<exists>polls w2 w3 e1.
            tr = [EvEnter (MgrService h) Stopped, EvQuery (MgrService h)] @ pre
                 @ [EvControl (MgrService h) Stop] @ polls @ [EvExit (MgrService h) Stopped e]
          \<and> set polls \<subseteq> {EvQuery (MgrService h)}
          \<and> manager_dependents_stopped n ops api deps w1 pre w2
          \<and> Control ops (MgrService h) Stop w2 = (e1, w3)
          \<and> (case e1 of
                Some x \<Rightarrow> e = Some x \<and> w' = w3 \<and> polls = []
              | None \<Rightarrow> WaitForState ops (delay api) (pollBudget api) (MgrService h) Stopped w3
                          = (e, w', polls)))
         \<or> (tr = [EvEnter (MgrService h) Stopped, EvQuery (MgrService h)] @ pre
                    @ [EvExit (MgrService h) Stopped e]
             \<and> e \<noteq> None \<and> \<not> panicked pre
             \<and> manager_stopDependents n ops api deps w1 = Some (e, w', pre))
         \<or> (tr = [EvEnter (MgrService h) Stopped, EvQuery (MgrService h)] @ pre
             \<and> e = Some PanicIndexOutOfRange \<and> panicked pre
             \<and> (\<exists>e'. manager_stopDependents n ops api deps w1 = Some (Some e', w', pre)))"
  proof (cases r)
    case None
    obtain e1 w3 where c: "Control ops (MgrService h) Stop w2 = (e1, w3)"
      by (cases "Control ops (MgrService h) Stop w2")
    from l a ns None c have "\<exists>polls. tr = [EvEnter (MgrService h) Stopped, EvQuery (MgrService h)] @ pre
                 @ [EvControl (MgrService h) Stop] @ polls @ [EvExit (MgrService h) Stopped e]
          \<and> set polls \<subseteq> {EvQuery (MgrService h)}
          \<and> (case e1 of
                Some x \<Rightarrow> e = Some x \<and> w' = w3 \<and> polls = []
              | None \<Rightarrow> WaitForState ops (delay api) (pollBudget api) (MgrService h) Stopped w3
                          = (e, w', polls))"
    proof (cases e1)
      case (Some x)
      with l a ns None c show ?thesis by auto
    next
      case N: None
      obtain e2 w4 polls where
        wt: "WaitForState ops (delay api) (pollBudget api) (MgrService h) Stopped w3
               = (e2, w4, polls)"
        by (cases "WaitForState ops (delay api) (pollBudget api) (MgrService h) Stopped w3")
      from WaitForState_trace [OF wt] have "set polls \<subseteq> {EvQuery (MgrService h)}" .
      with l a ns None c N wt show ?thesis by auto
    qed
    with manager_stopDependents_success [OF l [unfolded None]] c show ?thesis
      by blast
  next
    case (Some er)
    show ?thesis
    proof (cases "panicked pre")
      case False
      with Some l a ns have "tr = [EvEnter (MgrService h) Stopped, EvQuery (MgrService h)] @ pre
                    @ [EvExit (MgrService h) Stopped e]
             \<and> e \<noteq> None \<and> \<not> panicked pre
             \<and> manager_stopDependents n ops api deps w1 = Some (e, w', pre)"
        by auto
      then show ?thesis by blast
    next
      case True
      with Some l a ns have "tr = [EvEnter (MgrService h) Stopped, EvQuery (MgrService h)] @ pre
             \<and> e = Some PanicIndexOutOfRange \<and> panicked pre
             \<and> (\<exists>e'. manager_stopDependents n ops api deps w1 = Some (Some e', w', pre))"
        by auto
      then show ?thesis by blast
    qed
  qed
qed

theorem dependents_stopped_before_control_witness:
  "(\<exists>t' tr pre.
      testMgr_EnsureServiceState (Suc (Suc 0)) denied_ops (FakePtr 3) Stopped registry_xyzw
        = Some (Some (UnableToStopDependentService ''X'' (Errno 5)), t', tr)
      \<and> tr = [EvEnter (FakePtr 3) Stopped, EvQuery (FakePtr 3)] @ pre
               @ [EvExit (FakePtr 3) Stopped
                    (Some (UnableToStopDependentService ''X'' (Errno 5)))]
      \<and> testMgr_stopDependents (Suc 0) denied_ops [''X'', ''Y''] registry_xyzw
          = Some (Some (UnableToStopDependentService ''X'' (Errno 5)), t', pre))
   \<and> (\<exists>t' tr pre t1.
      testMgr_EnsureServiceState (Suc (Suc 0)) fake_ops (FakePtr 3) Stopped registry_xyzw
        = Some (None, t', tr)
      \<and> tr = [EvEnter (FakePtr 3) Stopped, EvQuery (FakePtr 3)] @ pre
               @ [EvControl (FakePtr 3) Stop, EvExit (FakePtr 3) Stopped None]
      \<and> testMgr_dependents_stopped (Suc 0) fake_ops [''X'', ''Y''] registry_xyzw pre t1
      \<and> (\<exists>hd st. testMgr_OpenService ''X'' t1 = Inr hd
                   \<and> Query fake_ops hd t1 = Inr st \<and> State st = Stopped)
      \<and> (\<exists>hd st. testMgr_OpenService ''Y'' t1 = Inr hd
                   \<and> Query fake_ops hd t1 = Inr st \<and> State st = Stopped)
      \<and> Control fake_ops (FakePtr 3) Stop t1 = (None, t'))
   \<and> (\<exists>w' tr pre polls w2.
      manager_EnsureServiceState (Suc (Suc 0)) sim_ops sim_api (MgrService 3) Stopped
          registry_xyzw = Some (None, w', tr)
      \<and> tr = [EvEnter (MgrService 3) Stopped, EvQuery (MgrService 3)] @ pre
               @ [EvControl (MgrService 3) Stop] @ polls
               @ [EvExit (MgrService 3) Stopped None]
      \<and> manager_dependents_stopped (Suc 0) sim_ops sim_api [''X'', ''Y''] registry_xyzw pre w2)"
proof -
  note main = dependents_stopped_before_control
  let ?w = "registry_xyzw"
  let ?e = "UnableToStopDependentService ''X'' (Errno 5)"
  have ns: "State \<lparr>State = Running\<rparr> \<noteq> Stopped"
    by (simp add: state_defs)
  have nm: "name (objs ?w 3) = ''Z''"
    by (simp add: registry_defs)
  have "\<exists>t' tr. testMgr_EnsureServiceState (Suc (Suc 0)) denied_ops (FakePtr 3) Stopped ?w
                 = Some (Some ?e, t', tr)"
    by (simp add: denied_ops_def fake_defs registry_defs state_defs)
  then obtain ta tra where ra: "testMgr_EnsureServiceState (Suc (Suc 0)) denied_ops
      (FakePtr 3) Stopped ?w = Some (Some ?e, ta, tra)"
    by blast
  have qa: "Query denied_ops (FakePtr 3) ?w = Inr \<lparr>State = Running\<rparr>"
    by (simp add: denied_ops_def fake_defs registry_defs)
  have la: "testMgr_listDependentServices denied_ops ''Z'' ?w = Inr [''X'', ''Y'']"
    by (simp add: denied_ops_def fake_defs registry_defs)
  have hypa: "testMgr_EnsureServiceState (Suc (Suc 0)) denied_ops (FakePtr 3) Stopped ?w
               = Some (Some ?e, ta, tra)
    \<and> Query denied_ops (FakePtr 3) ?w = Inr \<lparr>State = Running\<rparr>
    \<and> State \<lparr>State = Running\<rparr> \<noteq> Stopped
    \<and> testMgr_listDependentServices denied_ops (name (objs ?w 3)) ?w = Inr [''X'', ''Y'']"
    unfolding nm by (intro conjI ra qa ns la)
  have nc: "Control denied_ops (FakePtr 3) Stop t1 \<noteq> (Some ?e, ta)" for t1
    by (simp add: denied_ops_def)
  from main [THEN conjunct1, THEN mp, OF hypa] nc
  have ca: "\<exists>pre. tra = [EvEnter (FakePtr 3) Stopped, EvQuery (FakePtr 3)] @ pre
               @ [EvExit (FakePtr 3) Stopped (Some ?e)]
      \<and> testMgr_stopDependents (Suc 0) denied_ops [''X'', ''Y''] ?w = Some (Some ?e, ta, pre)"
    by blast
  have "\<exists>t' tr. testMgr_EnsureServiceState (Suc (Suc 0)) fake_ops (FakePtr 3) Stopped ?w
                 = Some (None, t', tr)"
    by (simp add: fake_defs registry_defs state_defs)
  then obtain tb trb where rb: "testMgr_EnsureServiceState (Suc (Suc 0)) fake_ops
      (FakePtr 3) Stopped ?w = Some (None, tb, trb)"
    by blast
  have qb: "Query fake_ops (FakePtr 3) ?w = Inr \<lparr>State = Running\<rparr>"
    by (simp add: fake_defs registry_defs)
  have lb: "testMgr_listDependentServices fake_ops ''Z'' ?w = Inr [''X'', ''Y'']"
    by (simp add: fake_defs registry_defs)
  have hypb: "testMgr_EnsureServiceState (Suc (Suc 0)) fake_ops (FakePtr 3) Stopped ?w
               = Some (None, tb, trb)
    \<and> Query fake_ops (FakePtr 3) ?w = Inr \<lparr>State = Running\<rparr>
    \<and> State \<lparr>State = Running\<rparr> \<noteq> Stopped
    \<and> testMgr_listDependentServices fake_ops (name (objs ?w 3)) ?w = Inr [''X'', ''Y'']"
    unfolding nm by (intro conjI rb qb ns lb)
  have mx: "''X'' \<in> set [''X'', ''Y'']" and my: "''Y'' \<in> set [''X'', ''Y'']"
    by simp_all
  from main [THEN conjunct2, THEN conjunct1, THEN mp, OF hypb] mx my
  have cb: "\<exists>pre t1. trb = [EvEnter (FakePtr 3) Stopped, EvQuery (FakePtr 3)] @ pre
               @ [EvControl (FakePtr 3) Stop, EvExit (FakePtr 3) Stopped None]
      \<and> testMgr_dependents_stopped (Suc 0) fake_ops [''X'', ''Y''] ?w pre t1
      \<and> (\<exists>hd st. testMgr_OpenService ''X'' t1 = Inr hd
                   \<and> Query fake_ops hd t1 = Inr st \<and> State st = Stopped)
      \<and> (\<exists>hd st. testMgr_OpenService ''Y'' t1 = Inr hd
                   \<and> Query fake_ops hd t1 = Inr st \<and> State st = Stopped)
      \<and> Control fake_ops (FakePtr 3) Stop t1 = (None, tb)"
    by blast
  have "\<exists>w' tr. manager_EnsureServiceState (Suc (Suc 0)) sim_ops sim_api (MgrService 3)
               Stopped ?w = Some (None, w', tr)"
    by (simp add: fake_defs registry_defs state_defs sim_defs ERROR_MORE_DATA_def
          SERVICE_STATE_ALL_def numeral_3_eq_3 Let_def)
  then obtain wc trc where rc: "manager_EnsureServiceState (Suc (Suc 0)) sim_ops sim_api
      (MgrService 3) Stopped ?w = Some (None, wc, trc)"
    by blast
  have qc: "Query sim_ops (MgrService 3) ?w = Inr \<lparr>State = Running\<rparr>"
    by (simp add: sim_defs registry_defs)
  have "\<exists>attempts. manager_listDependentServices sim_api 3 ?w
           = (Inr [''X'', ''Y''], ?w, attempts)"
    by (simp add: fake_defs registry_defs sim_defs ERROR_MORE_DATA_def SERVICE_STATE_ALL_def
          Let_def manager_listDependentServices_def)
  then obtain attempts where lc:
    "manager_listDependentServices sim_api 3 ?w = (Inr [''X'', ''Y''], ?w, attempts)"
    by blast
  have hypc: "manager_EnsureServiceState (Suc (Suc 0)) sim_ops sim_api (MgrService 3)
                Stopped ?w = Some (None, wc, trc)
    \<and> Query sim_ops (MgrService 3) ?w = Inr \<lparr>State = Running\<rparr>
    \<and> State \<lparr>State = Running\<rparr> \<noteq> Stopped
    \<and> manager_listDependentServices sim_api 3 ?w = (Inr [''X'', ''Y''], ?w, attempts)"
    by (intro conjI rc qc ns lc)
  from main [THEN conjunct2, THEN conjunct2, THEN mp, OF hypc]
  have cc: "\<exists>pre polls w2. trc = [EvEnter (MgrService 3) Stopped, EvQuery (MgrService 3)] @ pre
               @ [EvControl (MgrService 3) Stop] @ polls
               @ [EvExit (MgrService 3) Stopped None]
      \<and> manager_dependents_stopped (Suc 0) sim_ops sim_api [''X'', ''Y''] ?w pre w2"
    by blast
  from ra ca rb cb rc cc show ?thesis
    by blast
qed

subsection \<open>Deleting a service\<close>

text \<open>
  C6, as stated, fails where it says that the dependents are stopped transitively before
  the delete. In the chain where A depends on B and B on C, with A and C running and B
  stopped, deleting C queries B, finds it stopped, stops C and removes it, in the test
  double and in the real manager; A, which depends on C through B, is never queried and
  is still running afterwards. Deleting B, which is reported stopped, removes it at once
  while A, which names B as a dependency, is running.
\<close>

theorem DeleteService_dependents_left_running_counterexample:
  "(''A'', ''B'') \<in> declared fake_ops (registry_chain Stopped)
   \<and> (''B'', ''C'') \<in> declared fake_ops (registry_chain Stopped)
   \<and> fsl_read ''A'' (registry_chain Stopped) = Some (FakePtr 0)
   \<and> fsl_read ''C'' (registry_chain Stopped) = Some (FakePtr 2)
   \<and> fst (the (testMgr_DeleteService (Suc (Suc 0)) fake_ops ''C'' (registry_chain Stopped)))
       = None
   \<and> snd (snd (the (testMgr_DeleteService (Suc (Suc 0)) fake_ops ''C'' (registry_chain Stopped))))
       = [EvEnter (FakePtr 2) Stopped, EvQuery (FakePtr 2),
          EvEnter (FakePtr 1) Stopped, EvQuery (FakePtr 1), EvExit (FakePtr 1) Stopped None,
          EvControl (FakePtr 2) Stop, EvExit (FakePtr 2) Stopped None, EvRemove ''C'']
   \<and> fake_Query (FakePtr 0)
         (fst (snd (the (testMgr_DeleteService (Suc (Suc 0)) fake_ops ''C''
                           (registry_chain Stopped)))))
       = Inr \<lparr>State = Running\<rparr>
   \<and> fst (the (testMgr_DeleteService (Suc 0) fake_ops ''B'' (registry_chain Stopped))) = None
   \<and> snd (snd (the (testMgr_DeleteService (Suc 0) fake_ops ''B'' (registry_chain Stopped))))
       = [EvEnter (FakePtr 1) Stopped, EvQuery (FakePtr 1), EvExit (FakePtr 1) Stopped None,
          EvRemove ''B'']
   \<and> fake_Query (FakePtr 0)
         (fst (snd (the (testMgr_DeleteService (Suc 0) fake_ops ''B''
                           (registry_chain Stopped)))))
       = Inr \<lparr>State = Running\<rparr>
   \<and> fst (the (manager_DeleteService (Suc (Suc 0)) sim_ops sim_api ''C''
                  (registry_chain Stopped))) = None
   \<and> snd (snd (the (manager_DeleteService (Suc (Suc 0)) sim_ops sim_api ''C''
                       (registry_chain Stopped))))
       = [EvEnter (MgrService 2) Stopped, EvQuery (MgrService 2),
          EvEnter (MgrService 1) Stopped, EvQuery (MgrService 1),
          EvExit (MgrService 1) Stopped None,
          EvControl (MgrService 2) Stop, EvQuery (MgrService 2), EvQuery (MgrService 2),
          EvExit (MgrService 2) Stopped None, EvDelete (MgrService 2)]
   \<and> sim_Query (MgrService 0)
         (fst (snd (the (manager_DeleteService (Suc (Suc 0)) sim_ops sim_api ''C''
                           (registry_chain Stopped)))))
       = Inr \<lparr>State = Running\<rparr>"
  apply (intro conjI)
  apply (simp add: declared_def fake_defs registry_defs state_defs)
  apply (simp add: declared_def fake_defs registry_defs state_defs)
  apply (simp add: fake_defs registry_defs state_defs)
  apply (simp add: fake_defs registry_defs state_defs)
  apply (simp add: testMgr_DeleteService_def fsl_remove_def fake_defs registry_defs state_defs)
  apply (simp add: testMgr_DeleteService_def fsl_remove_def fake_defs registry_defs state_defs)
  apply (simp add: testMgr_DeleteService_def fsl_remove_def fake_defs registry_defs state_defs)
  apply (simp add: testMgr_DeleteService_def fsl_remove_def fake_defs registry_defs state_defs)
  apply (simp add: testMgr_DeleteService_def fsl_remove_def fake_defs registry_defs state_defs)
  apply (simp add: testMgr_DeleteService_def fsl_remove_def fake_defs registry_defs state_defs)
  apply (simp add: manager_DeleteService_def manager_GetServices_def listServiceNames_def
      fsl_remove_def fake_defs registry_defs state_defs sim_defs ERROR_MORE_DATA_def
      SERVICE_STATE_ALL_def numeral_3_eq_3 Let_def)
  apply (simp add: manager_DeleteService_def manager_GetServices_def listServiceNames_def
      fsl_remove_def fake_defs registry_defs state_defs sim_defs ERROR_MORE_DATA_def
      SERVICE_STATE_ALL_def numeral_3_eq_3 Let_def)
  apply (simp add: manager_DeleteService_def manager_GetServices_def listServiceNames_def
      fsl_remove_def fake_defs registry_defs state_defs sim_defs ERROR_MORE_DATA_def
      SERVICE_STATE_ALL_def numeral_3_eq_3 Let_def)
  done

text \<open>
  C6, amended. \<^verbatim>\<open>DeleteService\<close> on a name that is not registered returns success and
  leaves the world as it is, so any number of such calls in a row succeed; in the real
  manager this needs the listing of the services to succeed, and a failure of the listing
  is returned. On a registered name the service is first driven to stopped by
  \<^verbatim>\<open>EnsureServiceState\<close>, and the delete is issued only after that call has returned
  success; nothing is deleted or removed during the call. In the real manager the call
  has then returned after a query reported the service stopped. In the test double, with
  services that are stopped when the stop control returns, the service is reported
  stopped in the world from which its entry is removed, the name is absent afterwards,
  and, if the service was not reported stopped before, every enumerated dependent is
  reported stopped afterwards (dependents of a service that is already reported stopped
  are not visited). When the stop call fails, its error is returned wrapped and no delete
  is issued; in the real manager a failure to open the service is returned wrapped as
  well, and a panic of the nested enumeration passes through without a delete, after the
  deferred \<^verbatim>\<open>Close\<close>.
\<close>

theorem DeleteService_stop_then_delete:
  "(fsl_read nm t = None \<longrightarrow> testMgr_DeleteService fuel fops nm t = Some (None, t, []))
   \<and> (fsl_read nm t = Some sv
        \<and> testMgr_EnsureServiceState fuel fops sv Stopped t = Some (Some e, t', tr) \<longrightarrow>
          testMgr_DeleteService fuel fops nm t = Some (Some (FailedToStopService nm e), t', tr)
          \<and> (\<forall>x. EvRemove x \<notin> set tr))
   \<and> (fsl_read nm t = Some sv
        \<and> testMgr_EnsureServiceState fuel fops sv Stopped t = Some (None, t', tr) \<longrightarrow>
          testMgr_DeleteService fuel fops nm t
            = Some (fst (fsl_remove nm t'), snd (fsl_remove nm t'), tr @ [EvRemove nm])
          \<and> (\<forall>x. EvRemove x \<notin> set tr))
   \<and> (fsl_read nm t = Some sv
        \<and> testMgr_DeleteService fuel fake_ops nm t = Some (None, t2, tr2) \<longrightarrow>
          (\<exists>t1 tr1.
             testMgr_EnsureServiceState fuel fake_ops sv Stopped t = Some (None, t1, tr1)
             \<and> tr2 = tr1 @ [EvRemove nm]
             \<and> (\<exists>st. Query fake_ops sv t1 = Inr st \<and> State st = Stopped)
             \<and> t2 = t1\<lparr>svcs := AList.delete nm (svcs t1)\<rparr>
             \<and> fsl_read nm t2 = None))
   \<and> (fsl_read nm t = Some (FakePtr p)
        \<and> testMgr_DeleteService fuel fake_ops nm t = Some (None, t2, tr2)
        \<and> Query fake_ops (FakePtr p) t = Inr st0 \<and> State st0 \<noteq> Stopped
        \<and> testMgr_listDependentServices fake_ops (name (objs t p)) t = Inr deps \<longrightarrow>
          (\<forall>d\<in>set deps. \<exists>hd st. testMgr_OpenService d t = Inr hd
                                  \<and> Query fake_ops hd t2 = Inr st \<and> State st = Stopped))
   \<and> (ListServices api w = Inl e0 \<longrightarrow>
          manager_DeleteService fuel ops api nm w = Some (Some e0, w, []))
   \<and> (ListServices api w = Inr names \<and> nm \<notin> set names \<longrightarrow>
          manager_DeleteService fuel ops api nm w = Some (None, w, []))
   \<and> (ListServices api w = Inr names \<and> nm \<in> set names
        \<and> OpenService api nm w = (Inl e0, w1) \<longrightarrow>
          manager_DeleteService fuel ops api nm w
            = Some (Some (FailedToOpenService nm e0), w1, []))
   \<and> (ListServices api w = Inr names \<and> nm \<in> set names
        \<and> OpenService api nm w = (Inr sv, w1)
        \<and> manager_EnsureServiceState fuel ops api sv Stopped w1 = Some (Some e, w2, tr)
        \<and> \<not> panicked tr \<longrightarrow>
          manager_DeleteService fuel ops api nm w
            = Some (Some (FailedToStopService nm e), Close ops sv w2, tr)
          \<and> (\<forall>x. EvDelete x \<notin> set tr))
   \<and> (ListServices api w = Inr names \<and> nm \<in> set names
        \<and> OpenService api nm w = (Inr sv, w1)
        \<and> manager_EnsureServiceState fuel ops api sv Stopped w1 = Some (Some e, w2, tr)
        \<and> panicked tr \<longrightarrow>
          manager_DeleteService fuel ops api nm w = Some (Some e, Close ops sv w2, tr)
          \<and> (\<forall>x. EvDelete x \<notin> set tr))
   \<and> (ListServices api w = Inr names \<and> nm \<in> set names
        \<and> OpenService api nm w = (Inr sv, w1)
        \<and> manager_EnsureServiceState fuel ops api sv Stopped w1 = Some (None, w2, tr) \<longrightarrow>
          manager_DeleteService fuel ops api nm w
            = Some (map_option (FailedToDeleteService nm) (fst (Delete ops sv w2)),
                    Close ops sv (snd (Delete ops sv w2)), tr @ [EvDelete sv])
          \<and> (\<forall>x. EvDelete x \<notin> set tr)
          \<and> (\<exists>st. Query ops sv w2 = Inr st \<and> State st = Stopped))"
proof (intro conjI impI)
  assume "fsl_read nm t = None"
  then show "testMgr_DeleteService fuel fops nm t = Some (None, t, [])"
    by (simp add: testMgr_DeleteService_def)
next
  assume a: "fsl_read nm t = Some sv
        \<and> testMgr_EnsureServiceState fuel fops sv Stopped t = Some (Some e, t', tr)"
  then show "testMgr_DeleteService fuel fops nm t = Some (Some (FailedToStopService nm e), t', tr)"
    by (simp add: testMgr_DeleteService_def)
  from a show "\<forall>x. EvRemove x \<notin> set tr"
    by (blast dest: testMgr_trace_no_remove)
next
  assume a: "fsl_read nm t = Some sv
        \<and> testMgr_EnsureServiceState fuel fops sv Stopped t = Some (None, t', tr)"
  then show "testMgr_DeleteService fuel fops nm t
            = Some (fst (fsl_remove nm t'), snd (fsl_remove nm t'), tr @ [EvRemove nm])"
    by (simp add: testMgr_DeleteService_def split: prod.splits)
  from a show "\<forall>x. EvRemove x \<notin> set tr"
    by (blast dest: testMgr_trace_no_remove)
next
  assume a: "fsl_read nm t = Some sv
        \<and> testMgr_DeleteService fuel fake_ops nm t = Some (None, t2, tr2)"
  then obtain t1 tr1 where
    e: "testMgr_EnsureServiceState fuel fake_ops sv Stopped t = Some (None, t1, tr1)"
    and r: "fsl_remove nm t1 = (None, t2)" and tr: "tr2 = tr1 @ [EvRemove nm]"
    by (auto simp: testMgr_DeleteService_def split: option.splits prod.splits)
  from fake_Ensure_keeps_stopped [OF e] a have "fsl_read nm t1 = Some sv"
    by (simp add: keeps_stopped_def fsl_read_def)
  with r have t2: "t2 = t1\<lparr>svcs := AList.delete nm (svcs t1)\<rparr>"
    by (simp add: fsl_remove_def fsl_read_def)
  then have "fsl_read nm t2 = None"
    by (simp add: fsl_read_def delete_conv')
  with e tr t2 fake_success_reports_target [OF e]
  show "\<exists>t1 tr1.
             testMgr_EnsureServiceState fuel fake_ops sv Stopped t = Some (None, t1, tr1)
             \<and> tr2 = tr1 @ [EvRemove nm]
             \<and> (\<exists>st. Query fake_ops sv t1 = Inr st \<and> State st = Stopped)
             \<and> t2 = t1\<lparr>svcs := AList.delete nm (svcs t1)\<rparr>
             \<and> fsl_read nm t2 = None"
    by blast
next
  assume a: "fsl_read nm t = Some (FakePtr p)
        \<and> testMgr_DeleteService fuel fake_ops nm t = Some (None, t2, tr2)
        \<and> Query fake_ops (FakePtr p) t = Inr st0 \<and> State st0 \<noteq> Stopped
        \<and> testMgr_listDependentServices fake_ops (name (objs t p)) t = Inr deps"
  then obtain t1 tr1 where
    e: "testMgr_EnsureServiceState fuel fake_ops (FakePtr p) Stopped t = Some (None, t1, tr1)"
    and r: "fsl_remove nm t1 = (None, t2)"
    by (auto simp: testMgr_DeleteService_def split: option.splits prod.splits)
  from e obtain n where n: "fuel = Suc n"
    by (cases fuel) auto
  from fake_Ensure_keeps_stopped [OF e] have k: "svcs t1 = svcs t"
    by (simp add: keeps_stopped_def)
  from r have o: "objs t2 = objs t1"
    by (auto simp: fsl_remove_def split: option.splits)
  from a fake_stop_success [OF e [unfolded n]]
  have "\<forall>d\<in>set deps. \<exists>hd st. testMgr_OpenService d t1 = Inr hd
                                 \<and> Query fake_ops hd t1 = Inr st \<and> State st = Stopped"
    by blast
  moreover have "Query fake_ops hd t2 = Query fake_ops hd t1" for hd
    using o by (simp add: fake_ops_def fake_Query_def split: Service.splits)
  moreover have "testMgr_OpenService d t1 = testMgr_OpenService d t" for d
    using k by (simp add: testMgr_OpenService_def fsl_read_def)
  ultimately show "\<forall>d\<in>set deps. \<exists>hd st. testMgr_OpenService d t = Inr hd
                                  \<and> Query fake_ops hd t2 = Inr st \<and> State st = Stopped"
    by simp
next
  assume "ListServices api w = Inl e0"
  then show "manager_DeleteService fuel ops api nm w = Some (Some e0, w, [])"
    by (simp add: manager_DeleteService_def manager_GetServices_def)
next
  assume "ListServices api w = Inr names \<and> nm \<notin> set names"
  then show "manager_DeleteService fuel ops api nm w = Some (None, w, [])"
    by (simp add: manager_DeleteService_def manager_GetServices_def)
next
  assume "ListServices api w = Inr names \<and> nm \<in> set names
        \<and> OpenService api nm w = (Inl e0, w1)"
  then show "manager_DeleteService fuel ops api nm w
            = Some (Some (FailedToOpenService nm e0), w1, [])"
    by (simp add: manager_DeleteService_def manager_GetServices_def)
next
  assume a: "ListServices api w = Inr names \<and> nm \<in> set names
        \<and> OpenService api nm w = (Inr sv, w1)
        \<and> manager_EnsureServiceState fuel ops api sv Stopped w1 = Some (Some e, w2, tr)
        \<and> \<not> panicked tr"
  then show "manager_DeleteService fuel ops api nm w
            = Some (Some (FailedToStopService nm e), Close ops sv w2, tr)"
    by (simp add: manager_DeleteService_def manager_GetServices_def)
  from a show "\<forall>x. EvDelete x \<notin> set tr"
    by (blast dest: manager_trace_no_delete)
next
  assume a: "ListServices api w = Inr names \<and> nm \<in> set names
        \<and> OpenService api nm w = (Inr sv, w1)
        \<and> manager_EnsureServiceState fuel ops api sv Stopped w1 = Some (Some e, w2, tr)
        \<and> panicked tr"
  then show "manager_DeleteService fuel ops api nm w = Some (Some e, Close ops sv w2, tr)"
    by (simp add: manager_DeleteService_def manager_GetServices_def)
  from a show "\<forall>x. EvDelete x \<notin> set tr"
    by (blast dest: manager_trace_no_delete)
next
  assume a: "ListServices api w = Inr names \<and> nm \<in> set names
        \<and> OpenService api nm w = (Inr sv, w1)
        \<and> manager_EnsureServiceState fuel ops api sv Stopped w1 = Some (None, w2, tr)"
  then show "manager_DeleteService fuel ops api nm w
            = Some (map_option (FailedToDeleteService nm) (fst (Delete ops sv w2)),
                    Close ops sv (snd (Delete ops sv w2)), tr @ [EvDelete sv])"
    by (simp add: manager_DeleteService_def manager_GetServices_def
             split: prod.splits option.splits)
  from a show "\<forall>x. EvDelete x \<notin> set tr"
    by (blast dest: manager_trace_no_delete)
  from a manager_success_reports_target [of fuel ops api sv Stopped w1 w2 tr]
  show "\<exists>st. Query ops sv w2 = Inr st \<and> State st = Stopped"
    by blast
qed

theorem DeleteService_stop_then_delete_witness:
  "testMgr_DeleteService (Suc 0) fake_ops ''nope'' (registry_chain Running)
     = Some (None, registry_chain Running, [])
   \<and> (\<exists>t' tr. testMgr_DeleteService (Suc 0) denied_ops ''A'' (registry_chain Running)
                    = Some (Some (FailedToStopService ''A'' (Errno 5)), t', tr)
                  \<and> (\<forall>x. EvRemove x \<notin> set tr))
   \<and> (\<exists>t' tr. testMgr_DeleteService (Suc 0) fake_ops ''A'' (registry_chain Running)
                    = Some (fst (fsl_remove ''A'' t'), snd (fsl_remove ''A'' t'),
                            tr @ [EvRemove ''A''])
                  \<and> (\<forall>x. EvRemove x \<notin> set tr))
   \<and> (\<exists>t1 t2 tr1.
         testMgr_DeleteService (Suc (Suc (Suc 0))) fake_ops ''C'' (registry_chain Running)
           = Some (None, t2, tr1 @ [EvRemove ''C''])
         \<and> testMgr_EnsureServiceState (Suc (Suc (Suc 0))) fake_ops (FakePtr 2) Stopped
               (registry_chain Running) = Some (None, t1, tr1)
         \<and> (\<exists>st. Query fake_ops (FakePtr 2) t1 = Inr st \<and> State st = Stopped)
         \<and> fsl_read ''C'' t2 = None
         \<and> (\<exists>hd st. testMgr_OpenService ''B'' (registry_chain Running) = Inr hd
                      \<and> Query fake_ops hd t2 = Inr st \<and> State st = Stopped))
   \<and> manager_DeleteService (Suc 0) sim_ops (sim_api\<lparr>ListServices := (\<lambda>t. Inl (Errno 5))\<rparr>)
         ''A'' (registry_chain Running)
       = Some (Some (Errno 5), registry_chain Running, [])
   \<and> manager_DeleteService (Suc 0) sim_ops sim_api ''nope'' (registry_chain Running)
       = Some (None, registry_chain Running, [])
   \<and> manager_DeleteService (Suc 0) sim_ops (sim_api\<lparr>ListServices := (\<lambda>t. Inr [''ghost''])\<rparr>)
         ''ghost'' (registry_chain Running)
       = Some (Some (FailedToOpenService ''ghost'' (Errno 1060)), registry_chain Running, [])
   \<and> (\<exists>w2 tr. manager_DeleteService (Suc 0) sim_ops stuck_api ''A'' (registry_chain Running)
                    = Some (Some (FailedToStopService ''A'' TransitionTimeout),
                            Close sim_ops (MgrService 0) w2, tr)
                  \<and> (\<forall>x. EvDelete x \<notin> set tr))
   \<and> manager_DeleteService (Suc 0) sim_ops panic_api ''A'' (registry_chain Running)
       = Some (Some PanicIndexOutOfRange,
               Close sim_ops (MgrService 0) (registry_chain Running),
               [EvEnter (MgrService 0) Stopped, EvQuery (MgrService 0), EvPanic])
   \<and> (\<exists>w2 tr. manager_DeleteService (Suc 0) sim_ops sim_api ''A'' (registry_chain Running)
                    = Some (map_option (FailedToDeleteService ''A'')
                              (fst (Delete sim_ops (MgrService 0) w2)),
                            Close sim_ops (MgrService 0) (snd (Delete sim_ops (MgrService 0) w2)),
                            tr @ [EvDelete (MgrService 0)])
                  \<and> (\<forall>x. EvDelete x \<notin> set tr)
                  \<and> (\<exists>st. Query sim_ops (MgrService 0) w2 = Inr st \<and> State st = Stopped))"
proof -
  note main = DeleteService_stop_then_delete
  note m1 = main [THEN conjunct1]
  note r1 = main [THEN conjunct2]
  note m2 = r1 [THEN conjunct1]
  note r2 = r1 [THEN conjunct2]
  note m3 = r2 [THEN conjunct1]
  note r3 = r2 [THEN conjunct2]
  note m4 = r3 [THEN conjunct1]
  note r4 = r3 [THEN conjunct2]
  note m5 = r4 [THEN conjunct1]
  note r5 = r4 [THEN conjunct2]
  note m6 = r5 [THEN conjunct1]
  note r6 = r5 [THEN conjunct2]
  note m7 = r6 [THEN conjunct1]
  note r7 = r6 [THEN conjunct2]
  note m8 = r7 [THEN conjunct1]
  note r8 = r7 [THEN conjunct2]
  note m9 = r8 [THEN conjunct1]
  note r9 = r8 [THEN conjunct2]
  note m10 = r9 [THEN conjunct1]
  note m11 = r9 [THEN conjunct2]
  let ?w = "registry_chain Running"
  have a1: "fsl_read ''nope'' ?w = None"
    by (simp add: fake_defs registry_defs)
  have a2: "fsl_read ''A'' ?w = Some (FakePtr 0)"
    by (simp add: fake_defs registry_defs)
  have a2c: "fsl_read ''C'' ?w = Some (FakePtr 2)"
    by (simp add: fake_defs registry_defs)
  have "\<exists>t' tr. testMgr_EnsureServiceState (Suc 0) denied_ops (FakePtr 0) Stopped ?w
            = Some (Some (Errno 5), t', tr)"
    by (simp add: denied_ops_def fake_defs registry_defs state_defs)
  then obtain t3 tr3 where a3: "testMgr_EnsureServiceState (Suc 0) denied_ops (FakePtr 0) Stopped
            ?w = Some (Some (Errno 5), t3, tr3)"
    by blast
  have "\<exists>t' tr. testMgr_EnsureServiceState (Suc 0) fake_ops (FakePtr 0) Stopped ?w
            = Some (None, t', tr)"
    by (simp add: fake_defs registry_defs state_defs)
  then obtain t4 tr4 where a4: "testMgr_EnsureServiceState (Suc 0) fake_ops (FakePtr 0) Stopped
            ?w = Some (None, t4, tr4)"
    by blast
  have "\<exists>t2 tr2. testMgr_DeleteService (Suc (Suc (Suc 0))) fake_ops ''C'' ?w
            = Some (None, t2, tr2)"
    by (simp add: testMgr_DeleteService_def fsl_remove_def fake_defs registry_defs state_defs)
  then obtain t5 tr5 where a5: "testMgr_DeleteService (Suc (Suc (Suc 0))) fake_ops ''C'' ?w
            = Some (None, t5, tr5)"
    by blast
  have q5: "Query fake_ops (FakePtr 2) ?w = Inr \<lparr>State = Running\<rparr>"
    by (simp add: fake_defs registry_defs)
  have ns: "State \<lparr>State = Running\<rparr> \<noteq> Stopped"
    by (simp add: state_defs)
  have nm5: "name (objs ?w 2) = ''C''"
    by (simp add: registry_defs)
  have l5: "testMgr_listDependentServices fake_ops ''C'' ?w = Inr [''B'']"
    by (simp add: fake_defs registry_defs)
  have mem: "''B'' \<in> set [''B'']"
    by simp
  have b0: "ListServices (sim_api\<lparr>ListServices := (\<lambda>t. Inl (Errno 5))\<rparr>) ?w = Inl (Errno 5)"
    by simp
  have b1: "ListServices sim_api ?w = Inr [''A'', ''B'', ''C'']"
    by (simp add: sim_defs listServiceNames_def registry_defs)
  have b1s: "ListServices stuck_api ?w = Inr [''A'', ''B'', ''C'']"
    by (simp add: sim_defs listServiceNames_def registry_defs)
  have b1p: "ListServices panic_api ?w = Inr [''A'', ''B'', ''C'']"
    by (simp add: panic_api_def sim_defs listServiceNames_def registry_defs)
  have b1g: "ListServices (sim_api\<lparr>ListServices := (\<lambda>t. Inr [''ghost''])\<rparr>) ?w = Inr [''ghost'']"
    by simp
  have inA: "''A'' \<in> set [''A'', ''B'', ''C'']" and inG: "''ghost'' \<in> set [''ghost'']"
    and notin: "''nope'' \<notin> set [''A'', ''B'', ''C'']"
    by simp_all
  have b2: "OpenService sim_api ''A'' ?w = (Inr (MgrService 0), ?w)"
    by (simp add: sim_defs fake_defs registry_defs)
  have b2s: "OpenService stuck_api ''A'' ?w = (Inr (MgrService 0), ?w)"
    by (simp add: sim_defs fake_defs registry_defs)
  have b2p: "OpenService panic_api ''A'' ?w = (Inr (MgrService 0), ?w)"
    by (simp add: panic_api_def sim_defs fake_defs registry_defs)
  have b2g: "OpenService (sim_api\<lparr>ListServices := (\<lambda>t. Inr [''ghost''])\<rparr>) ''ghost'' ?w
               = (Inl (Errno 1060), ?w)"
    by (simp add: sim_defs fake_defs registry_defs)
  have "\<exists>w2 tr. manager_EnsureServiceState (Suc 0) sim_ops stuck_api (MgrService 0) Stopped ?w
            = Some (Some TransitionTimeout, w2, tr) \<and> \<not> panicked tr"
    by (simp add: fake_defs registry_defs state_defs sim_defs ERROR_MORE_DATA_def
          SERVICE_STATE_ALL_def numeral_3_eq_3 panicked_def)
  then obtain w9 tr9 where b9: "manager_EnsureServiceState (Suc 0) sim_ops stuck_api
            (MgrService 0) Stopped ?w = Some (Some TransitionTimeout, w9, tr9)"
    and np9: "\<not> panicked tr9"
    by blast
  have b10: "manager_EnsureServiceState (Suc 0) sim_ops panic_api (MgrService 0) Stopped ?w
            = Some (Some PanicIndexOutOfRange, ?w,
                    [EvEnter (MgrService 0) Stopped, EvQuery (MgrService 0), EvPanic])"
    by (simp add: panic_api_def fake_defs registry_defs state_defs sim_defs ERROR_MORE_DATA_def
          SERVICE_STATE_ALL_def)
  have p10: "panicked [EvEnter (MgrService 0) Stopped, EvQuery (MgrService 0), EvPanic]"
    by (simp add: panicked_def)
  have "\<exists>w2 tr. manager_EnsureServiceState (Suc 0) sim_ops sim_api (MgrService 0) Stopped ?w
            = Some (None, w2, tr)"
    by (simp add: fake_defs registry_defs state_defs sim_defs ERROR_MORE_DATA_def
          SERVICE_STATE_ALL_def numeral_3_eq_3)
  then obtain w11 tr11 where b11: "manager_EnsureServiceState (Suc 0) sim_ops sim_api
            (MgrService 0) Stopped ?w = Some (None, w11, tr11)"
    by blast
  have c1: "testMgr_DeleteService (Suc 0) fake_ops ''nope'' ?w = Some (None, ?w, [])"
    by (rule m1 [THEN mp, OF a1])
  have c2: "testMgr_DeleteService (Suc 0) denied_ops ''A'' ?w
                    = Some (Some (FailedToStopService ''A'' (Errno 5)), t3, tr3)
                  \<and> (\<forall>x. EvRemove x \<notin> set tr3)"
    by (rule m2 [THEN mp, OF conjI [OF a2 a3]])
  have c3: "testMgr_DeleteService (Suc 0) fake_ops ''A'' ?w
                    = Some (fst (fsl_remove ''A'' t4), snd (fsl_remove ''A'' t4),
                            tr4 @ [EvRemove ''A''])
                  \<and> (\<forall>x. EvRemove x \<notin> set tr4)"
    by (rule m3 [THEN mp, OF conjI [OF a2 a4]])
  from m4 [THEN mp, OF conjI [OF a2c a5]]
  obtain t1 tr1 where c4:
    "testMgr_EnsureServiceState (Suc (Suc (Suc 0))) fake_ops (FakePtr 2) Stopped ?w
       = Some (None, t1, tr1)"
    "tr5 = tr1 @ [EvRemove ''C'']"
    "\<exists>st. Query fake_ops (FakePtr 2) t1 = Inr st \<and> State st = Stopped"
    "fsl_read ''C'' t5 = None"
    by blast
  have h5: "fsl_read ''C'' ?w = Some (FakePtr 2)
        \<and> testMgr_DeleteService (Suc (Suc (Suc 0))) fake_ops ''C'' ?w = Some (None, t5, tr5)
        \<and> Query fake_ops (FakePtr 2) ?w = Inr \<lparr>State = Running\<rparr>
        \<and> State \<lparr>State = Running\<rparr> \<noteq> Stopped
        \<and> testMgr_listDependentServices fake_ops (name (objs ?w 2)) ?w = Inr [''B'']"
    unfolding nm5 by (intro conjI a2c a5 q5 ns l5)
  from m5 [THEN mp, OF h5] mem
  have c5: "\<exists>hd st. testMgr_OpenService ''B'' ?w = Inr hd
                      \<and> Query fake_ops hd t5 = Inr st \<and> State st = Stopped"
    by blast
  have c6: "manager_DeleteService (Suc 0) sim_ops (sim_api\<lparr>ListServices := (\<lambda>t. Inl (Errno 5))\<rparr>)
         ''A'' ?w = Some (Some (Errno 5), ?w, [])"
    by (rule m6 [THEN mp, OF b0])
  have c7: "manager_DeleteService (Suc 0) sim_ops sim_api ''nope'' ?w = Some (None, ?w, [])"
    by (rule m7 [THEN mp, OF conjI [OF b1 notin]])
  have c8: "manager_DeleteService (Suc 0) sim_ops (sim_api\<lparr>ListServices := (\<lambda>t. Inr [''ghost''])\<rparr>)
         ''ghost'' ?w
       = Some (Some (FailedToOpenService ''ghost'' (Errno 1060)), ?w, [])"
    by (rule m8 [THEN mp, OF conjI [OF b1g conjI [OF inG b2g]]])
  have c9: "manager_DeleteService (Suc 0) sim_ops stuck_api ''A'' ?w
                    = Some (Some (FailedToStopService ''A'' TransitionTimeout),
                            Close sim_ops (MgrService 0) w9, tr9)
                  \<and> (\<forall>x. EvDelete x \<notin> set tr9)"
    by (rule m9 [THEN mp, OF conjI [OF b1s conjI [OF inA conjI [OF b2s conjI [OF b9 np9]]]]])
  have c10: "manager_DeleteService (Suc 0) sim_ops panic_api ''A'' ?w
       = Some (Some PanicIndexOutOfRange, Close sim_ops (MgrService 0) ?w,
               [EvEnter (MgrService 0) Stopped, EvQuery (MgrService 0), EvPanic])"
    by (rule m10 [THEN mp, OF conjI [OF b1p conjI [OF inA conjI [OF b2p conjI [OF b10 p10]]]],
                  THEN conjunct1])
  have c11: "manager_DeleteService (Suc 0) sim_ops sim_api ''A'' ?w
                    = Some (map_option (FailedToDeleteService ''A'')
                              (fst (Delete sim_ops (MgrService 0) w11)),
                            Close sim_ops (MgrService 0) (snd (Delete sim_ops (MgrService 0) w11)),
                            tr11 @ [EvDelete (MgrService 0)])
                  \<and> (\<forall>x. EvDelete x \<notin> set tr11)
                  \<and> (\<exists>st. Query sim_ops (MgrService 0) w11 = Inr st \<and> State st = Stopped)"
    by (rule m11 [THEN mp, OF conjI [OF b1 conjI [OF inA conjI [OF b2 b11]]]])
  from a5 c4 c5 have c45: "\<exists>t1 t2 tr1.
         testMgr_DeleteService (Suc (Suc (Suc 0))) fake_ops ''C'' ?w
           = Some (None, t2, tr1 @ [EvRemove ''C''])
         \<and> testMgr_EnsureServiceState (Suc (Suc (Suc 0))) fake_ops (FakePtr 2) Stopped ?w
             = Some (None, t1, tr1)
         \<and> (\<exists>st. Query fake_ops (FakePtr 2) t1 = Inr st \<and> State st = Stopped)
         \<and> fsl_read ''C'' t2 = None
         \<and> (\<exists>hd st. testMgr_OpenService ''B'' ?w = Inr hd
                      \<and> Query fake_ops hd t2 = Inr st \<and> State st = Stopped)"
    by blast
  from c2 have c2': "\<exists>t' tr. testMgr_DeleteService (Suc 0) denied_ops ''A'' ?w
                    = Some (Some (FailedToStopService ''A'' (Errno 5)), t', tr)
                  \<and> (\<forall>x. EvRemove x \<notin> set tr)"
    by blast
  from c3 have c3': "\<exists>t' tr. testMgr_DeleteService (Suc 0) fake_ops ''A'' ?w
                    = Some (fst (fsl_remove ''A'' t'), snd (fsl_remove ''A'' t'),
                            tr @ [EvRemove ''A''])
                  \<and> (\<forall>x. EvRemove x \<notin> set tr)"
    by blast
  from c9 have c9': "\<exists>w2 tr. manager_DeleteService (Suc 0) sim_ops stuck_api ''A'' ?w
                    = Some (Some (FailedToStopService ''A'' TransitionTimeout),
                            Close sim_ops (MgrService 0) w2, tr)
                  \<and> (\<forall>x. EvDelete x \<notin> set tr)"
    by blast
  from c11 have c11': "\<exists>w2 tr. manager_DeleteService (Suc 0) sim_ops sim_api ''A'' ?w
                    = Some (map_option (FailedToDeleteService ''A'')
                              (fst (Delete sim_ops (MgrService 0) w2)),
                            Close sim_ops (MgrService 0) (snd (Delete sim_ops (MgrService 0) w2)),
                            tr @ [EvDelete (MgrService 0)])
                  \<and> (\<forall>x. EvDelete x \<notin> set tr)
                  \<and> (\<exists>st. Query sim_ops (MgrService 0) w2 = Inr st \<and> State st = Stopped)"
    by blast
  show ?thesis
    by (intro conjI c1 c2' c3' c45 c6 c7 c8 c9' c10 c11')
qed

subsection \<open>Termination of the recursive stop\<close>

lemma same_frame_refl: "same_frame ops t t"
  by (simp add: same_frame_def)

lemma same_frame_trans: "same_frame ops t1 t2 \<Longrightarrow> same_frame ops t2 t3 \<Longrightarrow> same_frame ops t1 t3"
  by (simp add: same_frame_def)

lemma same_frame_loop:
  "same_frame ops t t0 \<Longrightarrow>
     listDependentLoop ops z t reg acc = listDependentLoop ops z t0 reg acc"
  by (induction reg arbitrary: acc) (auto simp: same_frame_def split: sum.splits)

lemma same_frame_listDependents:
  "same_frame ops t t0 \<Longrightarrow>
     testMgr_listDependentServices ops z t = testMgr_listDependentServices ops z t0"
  using same_frame_loop [of ops t t0 z "svcs t0" "[]"]
  by (simp add: testMgr_listDependentServices_def same_frame_def)

lemma same_frame_open:
  "same_frame ops t t0 \<Longrightarrow> testMgr_OpenService d t = testMgr_OpenService d t0"
  by (simp add: testMgr_OpenService_def fsl_read_def same_frame_def)

lemma testMgr_Ensure_frame:
  assumes H: "\<forall>s t. same_frame ops (snd (Control ops s Stop t)) t"
  shows "testMgr_EnsureServiceState n ops s Stopped t = Some (e, t', tr) \<Longrightarrow> same_frame ops t' t"
proof (rule testMgr_Ensure_preserves [where R = "same_frame ops"])
  show "\<forall>t. same_frame ops t t"
    by (simp add: same_frame_refl)
  show "\<forall>a b c. same_frame ops a b \<longrightarrow> same_frame ops b c \<longrightarrow> same_frame ops a c"
    by (blast intro: same_frame_trans)
  show "\<forall>s t. same_frame ops (snd (Control ops s Stop t)) t"
    by (rule H)
qed

lemma finite_declared: "finite (declared ops t)"
proof -
  let ?D = "\<Union>x\<in>set (svcs t).
              (case GetConfig ops (snd x) t of Inl e \<Rightarrow> {} | Inr cfg \<Rightarrow> set (Dependencies cfg))"
  have "declared ops t \<subseteq> fst ` set (svcs t) \<times> ?D"
  proof
    fix kd assume kd: "kd \<in> declared ops t"
    obtain k d where e: "kd = (k, d)" by (cases kd)
    with kd obtain sv cfg where m: "(k, sv) \<in> set (svcs t)"
      and c: "GetConfig ops sv t = Inr cfg" and d: "d \<in> set (Dependencies cfg)"
      unfolding declared_def by blast
    from m have "k \<in> fst ` set (svcs t)" by force
    moreover from c d have "d \<in> (case GetConfig ops (snd (k, sv)) t of
                                  Inl e \<Rightarrow> {} | Inr cfg \<Rightarrow> set (Dependencies cfg))"
      by simp
    with m have "d \<in> ?D" by (rule UN_I)
    ultimately show "kd \<in> fst ` set (svcs t) \<times> ?D"
      unfolding e by (rule SigmaI)
  qed
  moreover have "finite ?D"
  proof (rule finite_UN_I)
    show "finite (set (svcs t))" by simp
  next
    fix x
    show "finite (case GetConfig ops (snd x) t of
                    Inl e \<Rightarrow> {} | Inr cfg \<Rightarrow> set (Dependencies cfg))"
      by (cases "GetConfig ops (snd x) t") simp_all
  qed
  then have "finite (fst ` set (svcs t) \<times> ?D)" by simp
  ultimately show ?thesis by (rule finite_subset)
qed

lemma testMgr_other_handle_returns:
  "\<forall>p. s \<noteq> FakePtr p \<Longrightarrow> testMgr_EnsureServiceState (Suc n) ops s Stopped t \<noteq> None"
  by (cases s) (auto split: sum.splits prod.splits)

lemma testMgr_loop_returns:
  assumes H: "\<forall>s t. same_frame ops (snd (Control ops s Stop t)) t"
    and WF: "\<forall>(k, sv)\<in>set (svcs t0). \<forall>q. sv = FakePtr q \<longrightarrow> name (objs t0 q) = k"
  shows "\<forall>d\<in>set ds. \<exists>N. \<forall>n\<ge>N. \<forall>t p. same_frame ops t t0 \<longrightarrow> name (objs t p) = d \<longrightarrow>
            testMgr_EnsureServiceState n ops (FakePtr p) Stopped t \<noteq> None \<Longrightarrow>
         \<exists>N. \<forall>n\<ge>N. \<forall>t. same_frame ops t t0 \<longrightarrow> testMgr_stopDependents n ops ds t \<noteq> None"
proof (induction ds)
  case Nil
  then show ?case by simp
next
  case (Cons d ds)
  from Cons.prems obtain Nd where Nd: "\<forall>n\<ge>Nd. \<forall>t p. same_frame ops t t0 \<longrightarrow>
      name (objs t p) = d \<longrightarrow> testMgr_EnsureServiceState n ops (FakePtr p) Stopped t \<noteq> None"
    by auto
  from Cons.prems have "\<forall>d\<in>set ds. \<exists>N. \<forall>n\<ge>N. \<forall>t p. same_frame ops t t0 \<longrightarrow>
      name (objs t p) = d \<longrightarrow> testMgr_EnsureServiceState n ops (FakePtr p) Stopped t \<noteq> None"
    by simp
  from Cons.IH [OF this] obtain Nr where Nr: "\<forall>n\<ge>Nr. \<forall>t. same_frame ops t t0 \<longrightarrow>
      testMgr_stopDependents n ops ds t \<noteq> None"
    by blast
  have "testMgr_stopDependents n ops (d # ds) t \<noteq> None"
    if n: "n \<ge> max (max Nd 1) Nr" and f: "same_frame ops t t0" for n t
  proof (cases "testMgr_OpenService d t")
    case (Inl a)
    then show ?thesis by simp
  next
    case (Inr h)
    with same_frame_open [OF f, of d] have "map_of (svcs t0) d = Some h"
      by (simp add: testMgr_OpenService_def fsl_read_def split: option.splits)
    then have mem: "(d, h) \<in> set (svcs t0)"
      by (rule map_of_SomeD)
    have "testMgr_EnsureServiceState n ops h Stopped t \<noteq> None"
    proof (cases "\<exists>q. h = FakePtr q")
      case True
      then obtain q where q: "h = FakePtr q" by blast
      with mem WF have "name (objs t0 q) = d" by auto
      with f have "name (objs t q) = d" by (simp add: same_frame_def)
      with Nd n f q show ?thesis by simp
    next
      case False
      from n obtain m where "n = Suc m" by (cases n) auto
      with False testMgr_other_handle_returns [of h m ops t] show ?thesis by simp
    qed
    then obtain r t2 tr2 where
      c: "testMgr_EnsureServiceState n ops h Stopped t = Some (r, t2, tr2)"
      by (cases "testMgr_EnsureServiceState n ops h Stopped t") auto
    show ?thesis
    proof (cases r)
      case (Some er)
      with Inr c show ?thesis by simp
    next
      case None
      from testMgr_Ensure_frame [OF H c] f have "same_frame ops t2 t0"
        by (rule same_frame_trans)
      with Nr n have "testMgr_stopDependents n ops ds t2 \<noteq> None" by simp
      with Inr c None show ?thesis by (auto split: option.splits)
    qed
  qed
  then show ?case by blast
qed

lemma testMgr_acyclic_returns:
  assumes H: "\<forall>s t. same_frame ops (snd (Control ops s Stop t)) t"
    and WF: "\<forall>(k, sv)\<in>set (svcs t0). \<forall>q. sv = FakePtr q \<longrightarrow> name (objs t0 q) = k"
    and AC: "acyclic (declared ops t0 - Id)"
  shows "\<exists>N. \<forall>n\<ge>N. \<forall>t p. same_frame ops t t0 \<longrightarrow> name (objs t p) = x \<longrightarrow>
            testMgr_EnsureServiceState n ops (FakePtr p) Stopped t \<noteq> None"
proof -
  have "finite (declared ops t0 - Id)"
    using finite_declared by (rule finite_Diff)
  from this AC have "wf (declared ops t0 - Id)"
    by (rule finite_acyclic_wf)
  then show ?thesis
  proof (induction x rule: wf_induct_rule)
    case (less x)
    show ?case
    proof (cases "testMgr_listDependentServices ops x t0")
      case (Inl a)
      have "testMgr_EnsureServiceState n ops (FakePtr p) Stopped t \<noteq> None"
        if "n \<ge> 1" "same_frame ops t t0" "name (objs t p) = x" for n t p
      proof -
        from that obtain m where "n = Suc m" by (cases n) auto
        with that Inl same_frame_listDependents [OF that(2), of x] show ?thesis
          by (auto split: sum.splits prod.splits)
      qed
      then show ?thesis by blast
    next
      case (Inr deps)
      then have "listDependentLoop ops x t0 (svcs t0) [] = Inr deps"
        by (simp add: testMgr_listDependentServices_def)
      from listDependentLoop_set [OF this]
      have "\<forall>d\<in>set deps. (d, x) \<in> declared ops t0 - Id"
        by (auto simp: declared_def)
      with less.IH have "\<forall>d\<in>set deps. \<exists>N. \<forall>n\<ge>N. \<forall>t p. same_frame ops t t0 \<longrightarrow>
          name (objs t p) = d \<longrightarrow> testMgr_EnsureServiceState n ops (FakePtr p) Stopped t \<noteq> None"
        by blast
      from testMgr_loop_returns [OF H WF this] obtain Nl where
        Nl: "\<forall>n\<ge>Nl. \<forall>t. same_frame ops t t0 \<longrightarrow> testMgr_stopDependents n ops deps t \<noteq> None"
        by blast
      have "testMgr_EnsureServiceState n ops (FakePtr p) Stopped t \<noteq> None"
        if "n \<ge> Suc Nl" "same_frame ops t t0" "name (objs t p) = x" for n t p
      proof -
        from that obtain m where m: "n = Suc m" "m \<ge> Nl" by (cases n) auto
        with Nl that have "testMgr_stopDependents m ops deps t \<noteq> None" by simp
        with m that Inr same_frame_listDependents [OF that(2), of x] show ?thesis
          by (auto split: sum.splits prod.splits option.splits)
      qed
      then show ?thesis by blast
    qed
  qed
qed

lemma testMgr_listDependents_total:
  assumes WF: "\<forall>(k, sv)\<in>set (svcs t). \<exists>q cfg. sv = FakePtr q \<and> name (objs t q) = k
                  \<and> GetConfig ops sv t = Inr cfg"
  shows "\<exists>deps. testMgr_listDependentServices ops x t = Inr deps
           \<and> set deps = declaring ops t (svcs t) x"
proof -
  from WF have "\<forall>(k, sv)\<in>set (svcs t). k \<noteq> x \<longrightarrow> (\<exists>cfg. GetConfig ops sv t = Inr cfg)"
    by fastforce
  from testMgr_enumeration_set [THEN mp, OF this] show ?thesis
    by blast
qed

lemma testMgr_loop_cycle:
  assumes WF: "\<forall>(k, sv)\<in>set (svcs t). \<exists>q cfg. sv = FakePtr q \<and> name (objs t q) = k
                  \<and> GetConfig ops sv t = Inr cfg"
    and A: "\<forall>p t'. cyc_inv ops C t t' \<longrightarrow>
              (FakePtr p \<in> C \<longrightarrow> testMgr_EnsureServiceState n ops (FakePtr p) Stopped t' = None)
              \<and> (\<forall>e t'' tr. testMgr_EnsureServiceState n ops (FakePtr p) Stopped t'
                                = Some (e, t'', tr) \<longrightarrow> e = None \<and> cyc_inv ops C t t'')"
  shows "set ds \<subseteq> fst ` set (svcs t) \<Longrightarrow> cyc_inv ops C t t' \<Longrightarrow>
         ((\<exists>d\<in>set ds. \<exists>h. testMgr_OpenService d t = Inr h \<and> h \<in> C)
              \<longrightarrow> testMgr_stopDependents n ops ds t' = None)
         \<and> (\<forall>e t'' tr. testMgr_stopDependents n ops ds t' = Some (e, t'', tr)
                \<longrightarrow> e = None \<and> cyc_inv ops C t t'')"
proof (induction ds arbitrary: t')
  case Nil
  then show ?case by simp
next
  case (Cons d ds)
  from Cons.prems(1) obtain sv where m: "(d, sv) \<in> set (svcs t)" by auto
  then obtain sv' where "map_of (svcs t) d = Some sv'"
    by (metis weak_map_of_SomeI)
  moreover from this have "(d, sv') \<in> set (svcs t)" by (rule map_of_SomeD)
  with WF obtain q where "sv' = FakePtr q" by fastforce
  ultimately have o: "testMgr_OpenService d t = Inr (FakePtr q)"
    by (simp add: testMgr_OpenService_def fsl_read_def)
  from Cons.prems(2) have f: "same_frame ops t' t" by (simp add: cyc_inv_def)
  from o same_frame_open [OF f, of d] have o': "testMgr_OpenService d t' = Inr (FakePtr q)"
    by simp
  show ?case
  proof (cases "testMgr_EnsureServiceState n ops (FakePtr q) Stopped t'")
    case None
    with o' show ?thesis by simp
  next
    case (Some r)
    obtain e1 t1 tr1 where r: "r = (e1, t1, tr1)" by (cases r)
    with Some A Cons.prems(2) have e1: "e1 = None" and i1: "cyc_inv ops C t t1"
      by blast+
    from Some A Cons.prems(2) have nc: "FakePtr q \<notin> C" by auto
    from Cons.prems(1) have "set ds \<subseteq> fst ` set (svcs t)" by simp
    note ih = Cons.IH [OF this i1]
    have c1: "testMgr_stopDependents n ops (d # ds) t' = None"
      if "\<exists>d'\<in>set (d # ds). \<exists>h. testMgr_OpenService d' t = Inr h \<and> h \<in> C"
    proof -
      from that o nc have "\<exists>d'\<in>set ds. \<exists>h. testMgr_OpenService d' t = Inr h \<and> h \<in> C"
        by auto
      with ih have "testMgr_stopDependents n ops ds t1 = None" by blast
      with o' Some r e1 show ?thesis by simp
    qed
    have c2: "e = None \<and> cyc_inv ops C t t''"
      if "testMgr_stopDependents n ops (d # ds) t' = Some (e, t'', tr)" for e t'' tr
    proof -
      from that o' Some r e1 obtain tr2 where
        "testMgr_stopDependents n ops ds t1 = Some (e, t'', tr2)"
        by (auto split: option.splits)
      with ih show ?thesis by blast
    qed
    from c1 c2 show ?thesis by blast
  qed
qed

lemma testMgr_cycle_diverges_any_order:
  assumes F1: "\<forall>s t. same_frame ops (snd (Control ops s Stop t)) t"
    and F2: "\<forall>s t c. c \<in> C \<longrightarrow> s \<notin> C \<longrightarrow> Query ops c (snd (Control ops s Stop t)) = Query ops c t"
    and F3: "\<forall>q t'. same_frame ops t' t \<longrightarrow> (\<exists>st. Query ops (FakePtr q) t' = Inr st)"
    and F4: "\<forall>q t'. same_frame ops t' t \<longrightarrow> fst (Control ops (FakePtr q) Stop t') = None"
    and WF: "\<forall>(k, sv)\<in>set (svcs t). \<exists>q cfg. sv = FakePtr q \<and> name (objs t q) = k
                  \<and> GetConfig ops sv t = Inr cfg"
    and CY: "\<forall>c\<in>C. \<exists>q st d h. c = FakePtr q \<and> Query ops c t = Inr st \<and> State st \<noteq> Stopped
                \<and> d \<noteq> name (objs t q) \<and> (d, name (objs t q)) \<in> declared ops t
                \<and> testMgr_OpenService d t = Inr h \<and> h \<in> C"
  shows "\<forall>p t'. cyc_inv ops C t t' \<longrightarrow>
              (FakePtr p \<in> C \<longrightarrow> testMgr_EnsureServiceState n ops (FakePtr p) Stopped t' = None)
              \<and> (\<forall>e t'' tr. testMgr_EnsureServiceState n ops (FakePtr p) Stopped t'
                                = Some (e, t'', tr) \<longrightarrow> e = None \<and> cyc_inv ops C t t'')"
proof (induction n)
  case 0
  then show ?case by simp
next
  case (Suc n)
  have ns: "Stopped \<noteq> Running" by (simp add: state_defs)
  show ?case
  proof (intro allI impI)
    fix p t' assume i: "cyc_inv ops C t t'"
    then have f: "same_frame ops t' t" by (simp add: cyc_inv_def)
    let ?x = "name (objs t p)"
    from f have nm: "name (objs t' p) = ?x" by (simp add: same_frame_def)
    from testMgr_listDependents_total [OF WF, of ?x] obtain deps where
      l: "testMgr_listDependentServices ops ?x t = Inr deps"
      and sd: "set deps = declaring ops t (svcs t) ?x"
      by blast
    from same_frame_listDependents [OF f, of ?x] l nm
    have l': "testMgr_listDependentServices ops (name (objs t' p)) t' = Inr deps"
      by simp
    from sd have sub: "set deps \<subseteq> fst ` set (svcs t)" by force
    note loop = testMgr_loop_cycle [OF WF Suc.IH sub i]
    from F3 f obtain st where q: "Query ops (FakePtr p) t' = Inr st"
      by blast
    show "(FakePtr p \<in> C \<longrightarrow>
             testMgr_EnsureServiceState (Suc n) ops (FakePtr p) Stopped t' = None)
          \<and> (\<forall>e t'' tr. testMgr_EnsureServiceState (Suc n) ops (FakePtr p) Stopped t'
                           = Some (e, t'', tr) \<longrightarrow> e = None \<and> cyc_inv ops C t t'')"
    proof (cases "FakePtr p \<in> C")
      case True
      with CY obtain st0 d h where q0: "Query ops (FakePtr p) t = Inr st0"
        and n0: "State st0 \<noteq> Stopped"
        and dn: "d \<noteq> ?x" and dd: "(d, ?x) \<in> declared ops t"
        and oh: "testMgr_OpenService d t = Inr h" "h \<in> C"
        by blast
      from i True have "Query ops (FakePtr p) t' = Query ops (FakePtr p) t"
        by (simp add: cyc_inv_def)
      with q q0 n0 have st: "State st \<noteq> Stopped" by simp
      from dn dd sd have "d \<in> set deps" by (auto simp: declared_def)
      with oh loop have "testMgr_stopDependents n ops deps t' = None" by blast
      with True q st l' ns show ?thesis by simp
    next
      case False
      have "e = None \<and> cyc_inv ops C t t''"
        if r: "testMgr_EnsureServiceState (Suc n) ops (FakePtr p) Stopped t'
                 = Some (e, t'', tr)" for e t'' tr
      proof (cases "State st = Stopped")
        case True
        with r q i show ?thesis by auto
      next
        case st: False
        from r q st l' ns obtain e1 t1 tr1 where
          s1: "testMgr_stopDependents n ops deps t' = Some (e1, t1, tr1)"
          by (cases "testMgr_stopDependents n ops deps t'") auto
        with loop have e1: "e1 = None" and i1: "cyc_inv ops C t t1" by blast+
        from i1 have f1: "same_frame ops t1 t" by (simp add: cyc_inv_def)
        obtain e2 t2 where c: "Control ops (FakePtr p) Stop t1 = (e2, t2)"
          by (cases "Control ops (FakePtr p) Stop t1")
        from F4 f1 c have e2: "e2 = None" by (metis fst_conv)
        from r q st l' ns s1 e1 c have e: "e = e2" and t'': "t'' = t2"
          by auto
        from F1 c have "same_frame ops t2 t1" by (metis snd_conv)
        from this f1 have f2: "same_frame ops t2 t" by (rule same_frame_trans)
        have "\<forall>c\<in>C. Query ops c t2 = Query ops c t"
        proof
          fix x assume x: "x \<in> C"
          with F2 False c have "Query ops x t2 = Query ops x t1" by (metis snd_conv)
          with i1 x show "Query ops x t2 = Query ops x t" by (simp add: cyc_inv_def)
        qed
        with f2 e e2 t'' show ?thesis by (simp add: cyc_inv_def)
      qed
      with False show ?thesis by blast
    qed
  qed
qed

lemma WaitForState_inv:
  "\<forall>w. Inv w \<longrightarrow> Inv (dl w) \<Longrightarrow> Inv w \<Longrightarrow> Inv (fst (snd (WaitForState ops dl k s t w)))"
proof (induction k arbitrary: w)
  case 0
  then show ?case by simp
next
  case (Suc k)
  from Suc.prems have "Inv (dl w)" by blast
  from Suc.IH [OF Suc.prems(1) this] Suc.prems(2) show ?case
    by (auto split: sum.splits prod.splits)
qed

lemma not_panicked_append:
  "\<not> panicked tr \<Longrightarrow> \<not> panicked tr' \<Longrightarrow> \<not> panicked (tr @ tr')"
  by (cases "tr' = []") (auto simp: panicked_def)

lemma manager_loop_ranked:
  assumes Q: "\<forall>s w. (\<forall>h. s = MgrService h \<longrightarrow> rk h < b) \<longrightarrow> Inv w \<longrightarrow>
                (\<exists>e w' tr. manager_EnsureServiceState f ops api s Stopped w = Some (e, w', tr)
                            \<and> Inv w' \<and> \<not> panicked tr)"
    and O: "\<forall>d w. Inv w \<longrightarrow> Inv (snd (OpenService api d w))"
  shows "\<forall>d\<in>set ds. \<forall>w hs w2. Inv w \<longrightarrow> OpenService api d w = (Inr (MgrService hs), w2)
             \<longrightarrow> rk hs < b \<Longrightarrow> Inv w \<Longrightarrow>
         \<exists>e w' tr. manager_stopDependents f ops api ds w = Some (e, w', tr) \<and> Inv w'
                    \<and> \<not> panicked tr"
proof (induction ds arbitrary: w)
  case Nil
  then show ?case by (simp add: panicked_def)
next
  case (Cons d ds)
  obtain r w1 where o: "OpenService api d w = (r, w1)" by (cases "OpenService api d w")
  with O Cons.prems(2) have i1: "Inv w1" by (metis snd_conv)
  show ?case
  proof (cases r)
    case (Inl a)
    with o i1 show ?thesis by (simp add: manager_OpenService_def panicked_def)
  next
    case (Inr s)
    have "\<forall>h. s = MgrService h \<longrightarrow> rk h < b"
      using Cons.prems o Inr by auto
    with Q i1 obtain e w2 tr where
      c: "manager_EnsureServiceState f ops api s Stopped w1 = Some (e, w2, tr)"
      and i2: "Inv w2" and np: "\<not> panicked tr"
      by blast
    show ?thesis
    proof (cases e)
      case (Some er)
      with o Inr c i2 np show ?thesis by (simp add: manager_OpenService_def)
    next
      case None
      from Cons.prems have "\<forall>d\<in>set ds. \<forall>w hs w2. Inv w \<longrightarrow>
          OpenService api d w = (Inr (MgrService hs), w2) \<longrightarrow> rk hs < b"
        by simp
      from Cons.IH [OF this i2] obtain e3 w3 tr3 where
        "manager_stopDependents f ops api ds w2 = Some (e3, w3, tr3)" "Inv w3"
        "\<not> panicked tr3"
        by blast
      with o Inr c None np show ?thesis
        by (simp add: manager_OpenService_def not_panicked_append)
    qed
  qed
qed

lemma manager_ranked_returns:
  assumes O: "\<forall>d w. Inv w \<longrightarrow> Inv (snd (OpenService api d w))"
    and L: "\<forall>h w. Inv w \<longrightarrow> Inv (fst (snd (manager_listDependentServices api h w)))"
    and K: "\<forall>s w. Inv w \<longrightarrow> Inv (snd (Control ops s Stop w))"
    and D: "\<forall>w. Inv w \<longrightarrow> Inv (delay api w)"
    and NP: "\<forall>h w. Inv w \<longrightarrow> fst (manager_listDependentServices api h w) \<noteq> Inl PanicIndexOutOfRange"
    and R: "\<forall>h w deps w1 att d w' hs w2. Inv w
              \<longrightarrow> manager_listDependentServices api h w = (Inr deps, w1, att)
              \<longrightarrow> d \<in> set deps \<longrightarrow> Inv w'
              \<longrightarrow> OpenService api d w' = (Inr (MgrService hs), w2) \<longrightarrow> rk hs < rk h"
  shows "\<forall>s w. (\<forall>h. s = MgrService h \<longrightarrow> rk h < m) \<longrightarrow> Inv w \<longrightarrow>
           (\<exists>e w' tr. manager_EnsureServiceState (Suc m) ops api s Stopped w = Some (e, w', tr)
                       \<and> Inv w' \<and> \<not> panicked tr)"
proof (induction m)
  case 0
  have ns: "Stopped \<noteq> Running" by (simp add: state_defs)
  show ?case
  proof (intro allI impI)
    fix s w assume a: "\<forall>h. s = MgrService h \<longrightarrow> rk h < 0" and i: "Inv w"
    then have "\<forall>h. s \<noteq> MgrService h" by simp
    with i ns show "\<exists>e w' tr. manager_EnsureServiceState (Suc 0) ops api s Stopped w
                      = Some (e, w', tr) \<and> Inv w' \<and> \<not> panicked tr"
      by (cases s) (auto simp: panicked_def split: sum.splits)
  qed
next
  case (Suc m)
  have ns: "Stopped \<noteq> Running" by (simp add: state_defs)
  show ?case
  proof (intro allI impI)
    fix s w assume a: "\<forall>h. s = MgrService h \<longrightarrow> rk h < Suc m" and i: "Inv w"
    show "\<exists>e w' tr. manager_EnsureServiceState (Suc (Suc m)) ops api s Stopped w
                      = Some (e, w', tr) \<and> Inv w' \<and> \<not> panicked tr"
    proof (cases "\<exists>h. s = MgrService h")
      case False
      with i ns show ?thesis
        by (cases s) (auto simp: panicked_def split: sum.splits)
    next
      case True
      then obtain h where s: "s = MgrService h" by blast
      with a have rk: "rk h < Suc m" by simp
      obtain res w1 att where l: "manager_listDependentServices api h w = (res, w1, att)"
        by (cases "manager_listDependentServices api h w") auto
      with L i have i1: "Inv w1" by (metis fst_conv snd_conv)
      from NP i l have np: "res \<noteq> Inl PanicIndexOutOfRange" by (metis fst_conv)
      show ?thesis
      proof (cases "Query ops s w")
        case (Inl e)
        with i show ?thesis by (simp add: panicked_def)
      next
        case (Inr st)
        show ?thesis
        proof (cases "State st = Stopped")
          case True
          with Inr i show ?thesis by (simp add: panicked_def)
        next
          case False
          show ?thesis
          proof (cases res)
            case (Inl e)
            with np have "e \<noteq> PanicIndexOutOfRange" by simp
            with Inl Inr False s l i1 ns show ?thesis by (simp add: panicked_def)
          next
            case deps: (Inr deps)
            have "\<forall>d\<in>set deps. \<forall>w' hs w2. Inv w' \<longrightarrow>
                     OpenService api d w' = (Inr (MgrService hs), w2) \<longrightarrow> rk hs < m"
            proof (intro ballI allI impI)
              fix d w' hs w2
              assume "d \<in> set deps" "Inv w'" "OpenService api d w' = (Inr (MgrService hs), w2)"
              with R i l deps have "rk hs < rk h" by blast
              with rk show "rk hs < m" by simp
            qed
            from manager_loop_ranked [OF Suc.IH O this i1]
            obtain e2 w2 tr2 where
              sd: "manager_stopDependents (Suc m) ops api deps w1 = Some (e2, w2, tr2)"
              and i2: "Inv w2" and np2: "\<not> panicked tr2"
              by blast
            show ?thesis
            proof (cases e2)
              case (Some er)
              with Inr False s l deps sd i2 np2 ns show ?thesis by (simp add: panicked_def)
            next
              case None
              obtain e3 w3 where c: "Control ops s Stop w2 = (e3, w3)"
                by (cases "Control ops s Stop w2")
              with K i2 have i3: "Inv w3" by (metis snd_conv)
              show ?thesis
              proof (cases e3)
                case (Some er)
                with Inr False s l deps sd None c i3 ns show ?thesis by (simp add: panicked_def)
              next
                case n3: None
                obtain e4 w4 tr4 where
                  wt: "WaitForState ops (delay api) (pollBudget api) s Stopped w3 = (e4, w4, tr4)"
                  by (cases "WaitForState ops (delay api) (pollBudget api) s Stopped w3") auto
                from WaitForState_inv [OF D i3, of ops "pollBudget api" s Stopped] wt
                have "Inv w4" by simp
                with Inr False s l deps sd None c n3 wt ns show ?thesis
                  by (simp add: panicked_def)
              qed
            qed
          qed
        qed
      qed
    qed
  qed
qed

lemma manager_loop_cycle:
  assumes O: "\<forall>d w. Inv w \<longrightarrow> Inv (snd (OpenService api d w))"
    and H: "\<forall>d w hs w2. Inv w \<longrightarrow> OpenService api d w = (Inr hs, w2) \<longrightarrow> (\<exists>h. hs = MgrService h)"
    and A: "\<forall>h w. Inv w \<longrightarrow>
              (MgrService h \<in> S \<longrightarrow> manager_EnsureServiceState n ops api (MgrService h) Stopped w = None)
              \<and> (\<forall>e w' tr. manager_EnsureServiceState n ops api (MgrService h) Stopped w
                                = Some (e, w', tr) \<longrightarrow> e = None \<and> Inv w')"
  shows "\<forall>d\<in>set ds. \<forall>w'. Inv w' \<longrightarrow> (\<exists>hs. fst (OpenService api d w') = Inr hs) \<Longrightarrow> Inv w \<Longrightarrow>
         ((\<exists>d\<in>set ds. \<forall>w'. Inv w' \<longrightarrow> (\<exists>hs. fst (OpenService api d w') = Inr hs \<and> hs \<in> S))
              \<longrightarrow> manager_stopDependents n ops api ds w = None)
         \<and> (\<forall>e w' tr. manager_stopDependents n ops api ds w = Some (e, w', tr)
                \<longrightarrow> e = None \<and> Inv w')"
proof (induction ds arbitrary: w)
  case Nil
  then show ?case by simp
next
  case (Cons d ds)
  from Cons.prems obtain hs where "fst (OpenService api d w) = Inr hs"
    by auto
  then obtain w1 where o: "OpenService api d w = (Inr hs, w1)"
    by (cases "OpenService api d w") auto
  with O Cons.prems(2) have i1: "Inv w1" by (metis snd_conv)
  from H Cons.prems(2) o obtain h where hs: "hs = MgrService h" by blast
  show ?case
  proof (cases "manager_EnsureServiceState n ops api (MgrService h) Stopped w1")
    case None
    with o hs show ?thesis by (simp add: manager_OpenService_def)
  next
    case (Some r)
    obtain e1 w2 tr1 where r: "r = (e1, w2, tr1)" by (cases r)
    with Some A i1 have e1: "e1 = None" and i2: "Inv w2"
      by blast+
    from Some A i1 have nc: "MgrService h \<notin> S" by auto
    from Cons.prems(1) have "\<forall>d\<in>set ds. \<forall>w'. Inv w' \<longrightarrow> (\<exists>hs. fst (OpenService api d w') = Inr hs)"
      by simp
    note ih = Cons.IH [OF this i2]
    have c1: "manager_stopDependents n ops api (d # ds) w = None"
      if m: "\<exists>d'\<in>set (d # ds). \<forall>w'. Inv w' \<longrightarrow>
               (\<exists>hs. fst (OpenService api d' w') = Inr hs \<and> hs \<in> S)"
    proof -
      have "\<not> (\<forall>w'. Inv w' \<longrightarrow> (\<exists>hs. fst (OpenService api d w') = Inr hs \<and> hs \<in> S))"
        using Cons.prems(2) o hs nc by auto
      with m have "\<exists>d'\<in>set ds. \<forall>w'. Inv w' \<longrightarrow>
               (\<exists>hs. fst (OpenService api d' w') = Inr hs \<and> hs \<in> S)"
        by auto
      with ih have "manager_stopDependents n ops api ds w2 = None" by blast
      with o hs Some r e1 show ?thesis by (simp add: manager_OpenService_def)
    qed
    have c2: "e = None \<and> Inv w'"
      if "manager_stopDependents n ops api (d # ds) w = Some (e, w', tr)" for e w' tr
    proof -
      from that o hs Some r e1 obtain tr2 where
        "manager_stopDependents n ops api ds w2 = Some (e, w', tr2)"
        by (auto simp: manager_OpenService_def split: option.splits)
      with ih show ?thesis by blast
    qed
    from c1 c2 show ?thesis by blast
  qed
qed

lemma manager_cycle_diverges_any_order:
  assumes O: "\<forall>d w. Inv w \<longrightarrow> Inv (snd (OpenService api d w))"
    and L: "\<forall>h w. Inv w \<longrightarrow> Inv (fst (snd (manager_listDependentServices api h w)))"
    and K: "\<forall>h w. Inv w \<longrightarrow> MgrService h \<notin> S \<longrightarrow> Inv (snd (Control ops (MgrService h) Stop w))"
    and D: "\<forall>w. Inv w \<longrightarrow> Inv (delay api w)"
    and H: "\<forall>d w hs w2. Inv w \<longrightarrow> OpenService api d w = (Inr hs, w2) \<longrightarrow> (\<exists>h. hs = MgrService h)"
    and NQ: "\<forall>h w. Inv w \<longrightarrow> (\<exists>st. Query ops (MgrService h) w = Inr st)"
    and NL: "\<forall>h w. Inv w \<longrightarrow> (\<exists>deps. fst (manager_listDependentServices api h w) = Inr deps)"
    and NO: "\<forall>h w deps w1 att d w'. Inv w
               \<longrightarrow> manager_listDependentServices api h w = (Inr deps, w1, att)
               \<longrightarrow> d \<in> set deps \<longrightarrow> Inv w' \<longrightarrow> (\<exists>hs. fst (OpenService api d w') = Inr hs)"
    and NC: "\<forall>h w. Inv w \<longrightarrow> MgrService h \<notin> S \<longrightarrow>
               fst (Control ops (MgrService h) Stop w) = None
               \<and> fst (WaitForState ops (delay api) (pollBudget api) (MgrService h) Stopped
                        (snd (Control ops (MgrService h) Stop w))) = None"
    and M: "\<forall>s\<in>S. \<forall>w. Inv w \<longrightarrow>
              (\<exists>h st deps w1 att d. s = MgrService h \<and> Query ops s w = Inr st
                 \<and> State st \<noteq> Stopped
                 \<and> manager_listDependentServices api h w = (Inr deps, w1, att)
                 \<and> d \<in> set deps
                 \<and> (\<forall>w'. Inv w' \<longrightarrow> (\<exists>hs. fst (OpenService api d w') = Inr hs \<and> hs \<in> S)))"
  shows "\<forall>h w. Inv w \<longrightarrow>
              (MgrService h \<in> S \<longrightarrow> manager_EnsureServiceState n ops api (MgrService h) Stopped w = None)
              \<and> (\<forall>e w' tr. manager_EnsureServiceState n ops api (MgrService h) Stopped w
                                = Some (e, w', tr) \<longrightarrow> e = None \<and> Inv w')"
proof (induction n)
  case 0
  then show ?case by simp
next
  case (Suc n)
  have ns: "Stopped \<noteq> Running" by (simp add: state_defs)
  show ?case
  proof (intro allI impI)
    fix h w assume i: "Inv w"
    let ?s = "MgrService h"
    from NQ i obtain st where q: "Query ops ?s w = Inr st" by blast
    from NL i obtain deps where "fst (manager_listDependentServices api h w) = Inr deps"
      by blast
    then obtain w1 att where l: "manager_listDependentServices api h w = (Inr deps, w1, att)"
      by (cases "manager_listDependentServices api h w") auto
    with L i have i1: "Inv w1" by (metis fst_conv snd_conv)
    from NO i l have op: "\<forall>d\<in>set deps. \<forall>w'. Inv w' \<longrightarrow> (\<exists>hs. fst (OpenService api d w') = Inr hs)"
      by blast
    note loop = manager_loop_cycle [OF O H Suc.IH op i1]
    show "(?s \<in> S \<longrightarrow> manager_EnsureServiceState (Suc n) ops api ?s Stopped w = None)
          \<and> (\<forall>e w' tr. manager_EnsureServiceState (Suc n) ops api ?s Stopped w
                           = Some (e, w', tr) \<longrightarrow> e = None \<and> Inv w')"
    proof (cases "?s \<in> S")
      case True
      with M i obtain st0 deps0 w0 att0 d where q0: "Query ops ?s w = Inr st0"
        and n0: "State st0 \<noteq> Stopped"
        and l0: "manager_listDependentServices api h w = (Inr deps0, w0, att0)"
        and d: "d \<in> set deps0"
        and o: "\<forall>w'. Inv w' \<longrightarrow> (\<exists>hs. fst (OpenService api d w') = Inr hs \<and> hs \<in> S)"
        by blast
      from l l0 d have "d \<in> set deps" by simp
      with o loop have "manager_stopDependents n ops api deps w1 = None" by blast
      with True q0 n0 l ns show ?thesis by simp
    next
      case False
      have "e = None \<and> Inv w'"
        if r: "manager_EnsureServiceState (Suc n) ops api ?s Stopped w = Some (e, w', tr)"
        for e w' tr
      proof (cases "State st = Stopped")
        case True
        with r q i show ?thesis by auto
      next
        case st: False
        from r q st l ns obtain e1 w2 tr1 where
          s1: "manager_stopDependents n ops api deps w1 = Some (e1, w2, tr1)"
          by (cases "manager_stopDependents n ops api deps w1") auto
        with loop have e1: "e1 = None" and i2: "Inv w2" by blast+
        obtain e2 w3 where c: "Control ops ?s Stop w2 = (e2, w3)"
          by (cases "Control ops ?s Stop w2")
        from NC i2 False c have e2: "e2 = None"
          and wn: "fst (WaitForState ops (delay api) (pollBudget api) ?s Stopped w3) = None"
          by (metis fst_conv snd_conv)+
        from K i2 False c have i3: "Inv w3" by (metis snd_conv)
        obtain e4 w4 tr4 where
          wt: "WaitForState ops (delay api) (pollBudget api) ?s Stopped w3 = (e4, w4, tr4)"
          by (cases "WaitForState ops (delay api) (pollBudget api) ?s Stopped w3") auto
        from WaitForState_inv [OF D i3, of ops "pollBudget api" ?s Stopped] wt
        have i4: "Inv w4" by simp
        from wn wt have e4: "e4 = None" by simp
        from r q st l ns s1 e1 c e2 wt e4 i4 show ?thesis
          by auto
      qed
      with False show ?thesis by blast
    qed
  qed
qed

lemma fake_Control_frame: "same_frame fake_ops (snd (Control fake_ops s c t)) t"
  by (cases s) (auto simp: fake_defs same_frame_def split: Service.splits)

lemma sim_Control_frame:
  "same_frame fake_ops w t0 \<Longrightarrow> same_frame fake_ops (snd (Control sim_ops s c w)) t0"
  by (cases s) (auto simp: fake_defs sim_defs same_frame_def split: Service.splits)

lemma sim_delay_frame: "same_frame fake_ops w t0 \<Longrightarrow> same_frame fake_ops (delay sim_api w) t0"
  by (auto simp: fake_defs sim_defs same_frame_def split: Service.splits)

lemma sim_open_world: "snd (OpenService sim_api d w) = w"
  by (simp add: sim_defs split: option.splits Service.splits)

lemma sim_open_handle: "OpenService sim_api d w = (Inr hs, w2) \<Longrightarrow> \<exists>h. hs = MgrService h"
  by (auto simp: sim_defs split: option.splits Service.splits)

lemma sim_list_world: "fst (snd (manager_listDependentServices sim_api h w)) = w"
  by (simp add: sim_defs Let_def)

lemma sim_dependents_frame:
  "same_frame fake_ops w t0 \<Longrightarrow> sim_dependents h w = sim_dependents h t0"
  using same_frame_loop [of fake_ops w t0 "name (objs t0 h)" "svcs t0" "[]"]
  by (simp add: sim_dependents_def same_frame_def fake_ops_def)

lemma sim_list_short:
  assumes "length (sim_dependents h w) \<le> 2"
  shows "\<exists>att. manager_listDependentServices sim_api h w = (Inr (sim_dependents h w), w, att)"
proof -
  from assms consider "sim_dependents h w = []" | a where "sim_dependents h w = [a]"
    | a b where "sim_dependents h w = [a, b]"
    by (cases "sim_dependents h w" rule: list.exhaust[case_product list.exhaust]) (auto simp: length_Suc_conv le_Suc_eq)
  then show ?thesis
  proof cases
    case 1
    then show ?thesis
      by (simp add: sim_api_def sim_enum_def manager_listDependentServices_def Let_def
            ERROR_MORE_DATA_def SERVICE_STATE_ALL_def)
  next
    case 2
    then show ?thesis
      by (simp add: sim_api_def sim_enum_def manager_listDependentServices_def Let_def
            ERROR_MORE_DATA_def SERVICE_STATE_ALL_def)
  next
    case 3
    then show ?thesis
      by (simp add: sim_api_def sim_enum_def manager_listDependentServices_def Let_def
            ERROR_MORE_DATA_def SERVICE_STATE_ALL_def)
  qed
qed

lemma sim_stop_completes:
  "fst (Control sim_ops (MgrService h) Stop w) = None
   \<and> fst (WaitForState sim_ops (delay sim_api) (pollBudget sim_api) (MgrService h) Stopped
            (snd (Control sim_ops (MgrService h) Stop w))) = None"
  by (simp add: sim_defs state_defs fake_setState_def numeral_3_eq_3)

lemma chain_dependents:
  "sim_dependents h (registry_chain st)
     = (if h = 2 then [''B''] else if h = 1 then [''A''] else [])"
  by (auto simp: sim_dependents_def fake_defs registry_defs noService_def)

lemma chain_open:
  "same_frame fake_ops w (registry_chain st) \<Longrightarrow>
   OpenService sim_api d w = (Inr (MgrService hs), w2) \<Longrightarrow>
     (d = ''A'' \<and> hs = 0) \<or> (d = ''B'' \<and> hs = 1) \<or> (d = ''C'' \<and> hs = 2)"
  by (auto simp: sim_defs fake_defs registry_defs same_frame_def
           split: if_splits option.splits Service.splits)

lemma cycle_extra_dependents:
  "sim_dependents h registry_cycle_extra
     = (if h = 1 then [''D'', ''B''] else if h = 2 then [''A''] else [])"
  by (auto simp: sim_dependents_def fake_defs registry_defs noService_def)

lemma cycle_extra_open:
  "svcs w = svcs registry_cycle_extra \<Longrightarrow>
     OpenService sim_api ''D'' w = (Inr (MgrService 0), w)
     \<and> OpenService sim_api ''A'' w = (Inr (MgrService 1), w)
     \<and> OpenService sim_api ''B'' w = (Inr (MgrService 2), w)"
  by (simp add: sim_defs fake_defs registry_defs)

text \<open>
  C9, as stated, fails for a cycle of one service. A service that names itself as a
  dependency makes the declared relation cyclic, and it is not stopped; but the
  enumeration of the test double skips the entry of the service itself, so the call on it
  finds no dependents, issues the stop control and returns with fuel 1.
\<close>

theorem self_declaration_returns_counterexample:
  "(''Z'', ''Z'') \<in> declared fake_ops registry_self
   \<and> fsl_read ''Z'' registry_self = Some (FakePtr 0)
   \<and> fake_Query (FakePtr 0) registry_self = Inr \<lparr>State = Running\<rparr>
   \<and> testMgr_listDependentServices fake_ops ''Z'' registry_self = Inr []
   \<and> fst (the (testMgr_EnsureServiceState (Suc 0) fake_ops (FakePtr 0) Stopped registry_self))
       = None
   \<and> snd (snd (the (testMgr_EnsureServiceState (Suc 0) fake_ops (FakePtr 0) Stopped
                      registry_self)))
       = [EvEnter (FakePtr 0) Stopped, EvQuery (FakePtr 0),
          EvControl (FakePtr 0) Stop, EvExit (FakePtr 0) Stopped None]
   \<and> fake_Query (FakePtr 0)
         (fst (snd (the (testMgr_EnsureServiceState (Suc 0) fake_ops (FakePtr 0) Stopped
                           registry_self))))
       = Inr \<lparr>State = Stopped\<rparr>"
  by (simp add: declared_def fake_defs registry_defs state_defs)

text \<open>
  C9, amended. The recursive stop has no cycle check; whether it returns depends on the
  declared dependency relation, in which a service that names itself does not count.

  Test double, acyclic: when the stop control changes nothing but states, every fake
  service is registered under its name and the declared relation without the
  self-declarations is acyclic, \<^verbatim>\<open>EnsureServiceState\<close> to stopped returns for every
  handle once the fuel is large enough. Real manager, acyclic: when the dependents that
  the system enumerates for a handle always have a smaller rank than the handle (on the
  worlds the calls can reach) and the enumeration does not panic, the call returns with
  fuel \<open>rank + 2\<close>, and it returns without a panic.

  Cycle: take a set of services each of which is reported not stopped and is named as a
  dependency by another registered service that belongs to the set as well. In the test
  double, when no request fails (every registered service is a fake service whose
  configuration can be read, and queries and stop controls on fake services succeed) and
  the stop control of a service outside the set changes no answer of a service in the
  set, the call on a member of the set returns for no fuel, whatever the order of the
  enumeration. In the real manager the same holds on the worlds the calls can reach:
  when every enumerated dependent can be opened, queries and enumerations succeed,
  stopping a service outside the set succeeds within the poll budget, and every member of
  the set is reported not stopped and has an enumerated dependent that opens to a member
  of the set, the call on a member returns for no fuel.
\<close>

theorem stop_recursion_without_cycle_check:
  "((\<forall>s t. same_frame fops (snd (Control fops s Stop t)) t)
    \<and> (\<forall>(k, sv)\<in>set (svcs t0). \<forall>q. sv = FakePtr q \<longrightarrow> name (objs t0 q) = k)
    \<and> acyclic (declared fops t0 - Id)
    \<longrightarrow> (\<exists>N. \<forall>fuel\<ge>N. testMgr_EnsureServiceState fuel fops s0 Stopped t0 \<noteq> None))
   \<and> ((\<forall>s t. same_frame fops (snd (Control fops s Stop t)) t)
      \<and> (\<forall>s t c. c \<in> C \<longrightarrow> s \<notin> C
            \<longrightarrow> Query fops c (snd (Control fops s Stop t)) = Query fops c t)
      \<and> (\<forall>q t. same_frame fops t t0 \<longrightarrow> (\<exists>st. Query fops (FakePtr q) t = Inr st))
      \<and> (\<forall>q t. same_frame fops t t0 \<longrightarrow> fst (Control fops (FakePtr q) Stop t) = None)
      \<and> (\<forall>(k, sv)\<in>set (svcs t0). \<exists>q cfg. sv = FakePtr q \<and> name (objs t0 q) = k
                  \<and> GetConfig fops sv t0 = Inr cfg)
      \<and> (\<forall>c\<in>C. \<exists>q st d h. c = FakePtr q \<and> Query fops c t0 = Inr st \<and> State st \<noteq> Stopped
                \<and> d \<noteq> name (objs t0 q) \<and> (d, name (objs t0 q)) \<in> declared fops t0
                \<and> testMgr_OpenService d t0 = Inr h \<and> h \<in> C)
    \<longrightarrow> (\<forall>c\<in>C. \<forall>fuel. testMgr_EnsureServiceState fuel fops c Stopped t0 = None))
   \<and> (Inv w0
      \<and> (\<forall>d w. Inv w \<longrightarrow> Inv (snd (OpenService api d w)))
      \<and> (\<forall>h w. Inv w \<longrightarrow> Inv (fst (snd (manager_listDependentServices api h w))))
      \<and> (\<forall>s w. Inv w \<longrightarrow> Inv (snd (Control ops s Stop w)))
      \<and> (\<forall>w. Inv w \<longrightarrow> Inv (delay api w))
      \<and> (\<forall>h w. Inv w
            \<longrightarrow> fst (manager_listDependentServices api h w) \<noteq> Inl PanicIndexOutOfRange)
      \<and> (\<forall>h w deps w1 att d w' hs w2. Inv w
              \<longrightarrow> manager_listDependentServices api h w = (Inr deps, w1, att)
              \<longrightarrow> d \<in> set deps \<longrightarrow> Inv w'
              \<longrightarrow> OpenService api d w' = (Inr (MgrService hs), w2) \<longrightarrow> rk hs < rk h)
    \<longrightarrow> (\<exists>e w' tr. manager_EnsureServiceState (Suc (Suc (rk h0))) ops api (MgrService h0)
                       Stopped w0 = Some (e, w', tr)
                     \<and> \<not> panicked tr))
   \<and> (Inv w0
      \<and> (\<forall>d w. Inv w \<longrightarrow> Inv (snd (OpenService api d w)))
      \<and> (\<forall>h w. Inv w \<longrightarrow> Inv (fst (snd (manager_listDependentServices api h w))))
      \<and> (\<forall>h w. Inv w \<longrightarrow> MgrService h \<notin> S
            \<longrightarrow> Inv (snd (Control ops (MgrService h) Stop w)))
      \<and> (\<forall>w. Inv w \<longrightarrow> Inv (delay api w))
      \<and> (\<forall>d w hs w2. Inv w \<longrightarrow> OpenService api d w = (Inr hs, w2)
            \<longrightarrow> (\<exists>h. hs = MgrService h))
      \<and> (\<forall>h w. Inv w \<longrightarrow> (\<exists>st. Query ops (MgrService h) w = Inr st))
      \<and> (\<forall>h w. Inv w \<longrightarrow> (\<exists>deps. fst (manager_listDependentServices api h w) = Inr deps))
      \<and> (\<forall>h w deps w1 att d w'. Inv w
               \<longrightarrow> manager_listDependentServices api h w = (Inr deps, w1, att)
               \<longrightarrow> d \<in> set deps \<longrightarrow> Inv w' \<longrightarrow> (\<exists>hs. fst (OpenService api d w') = Inr hs))
      \<and> (\<forall>h w. Inv w \<longrightarrow> MgrService h \<notin> S \<longrightarrow>
               fst (Control ops (MgrService h) Stop w) = None
               \<and> fst (WaitForState ops (delay api) (pollBudget api) (MgrService h) Stopped
                        (snd (Control ops (MgrService h) Stop w))) = None)
      \<and> (\<forall>s\<in>S. \<forall>w. Inv w \<longrightarrow>
              (\<exists>h st deps w1 att d. s = MgrService h \<and> Query ops s w = Inr st
                 \<and> State st \<noteq> Stopped
                 \<and> manager_listDependentServices api h w = (Inr deps, w1, att)
                 \<and> d \<in> set deps
                 \<and> (\<forall>w'. Inv w' \<longrightarrow> (\<exists>hs. fst (OpenService api d w') = Inr hs \<and> hs \<in> S))))
    \<longrightarrow> (\<forall>s\<in>S. \<forall>fuel. manager_EnsureServiceState fuel ops api s Stopped w0 = None))"
proof (intro conjI impI)
  assume a: "(\<forall>s t. same_frame fops (snd (Control fops s Stop t)) t)
    \<and> (\<forall>(k, sv)\<in>set (svcs t0). \<forall>q. sv = FakePtr q \<longrightarrow> name (objs t0 q) = k)
    \<and> acyclic (declared fops t0 - Id)"
  show "\<exists>N. \<forall>fuel\<ge>N. testMgr_EnsureServiceState fuel fops s0 Stopped t0 \<noteq> None"
  proof (cases "\<exists>p. s0 = FakePtr p")
    case True
    then obtain p where p: "s0 = FakePtr p" by blast
    from a have H: "\<forall>s t. same_frame fops (snd (Control fops s Stop t)) t"
      and WF: "\<forall>(k, sv)\<in>set (svcs t0). \<forall>q. sv = FakePtr q \<longrightarrow> name (objs t0 q) = k"
      and AC: "acyclic (declared fops t0 - Id)"
      by blast+
    from testMgr_acyclic_returns [OF H WF AC, of "name (objs t0 p)"]
    obtain N where "\<forall>n\<ge>N. \<forall>t p'. same_frame fops t t0 \<longrightarrow>
        name (objs t p') = name (objs t0 p) \<longrightarrow>
        testMgr_EnsureServiceState n fops (FakePtr p') Stopped t \<noteq> None"
      by blast
    with same_frame_refl [of fops t0]
    have "\<forall>n\<ge>N. testMgr_EnsureServiceState n fops (FakePtr p) Stopped t0 \<noteq> None"
      by blast
    with p show ?thesis by blast
  next
    case False
    have "testMgr_EnsureServiceState fuel fops s0 Stopped t0 \<noteq> None" if "fuel \<ge> Suc 0" for fuel
    proof -
      from that obtain m where "fuel = Suc m" by (cases fuel) auto
      with False testMgr_other_handle_returns [of s0 m fops t0] show ?thesis by blast
    qed
    then show ?thesis by blast
  qed
next
  assume a: "(\<forall>s t. same_frame fops (snd (Control fops s Stop t)) t)
      \<and> (\<forall>s t c. c \<in> C \<longrightarrow> s \<notin> C
            \<longrightarrow> Query fops c (snd (Control fops s Stop t)) = Query fops c t)
      \<and> (\<forall>q t. same_frame fops t t0 \<longrightarrow> (\<exists>st. Query fops (FakePtr q) t = Inr st))
      \<and> (\<forall>q t. same_frame fops t t0 \<longrightarrow> fst (Control fops (FakePtr q) Stop t) = None)
      \<and> (\<forall>(k, sv)\<in>set (svcs t0). \<exists>q cfg. sv = FakePtr q \<and> name (objs t0 q) = k
                  \<and> GetConfig fops sv t0 = Inr cfg)
      \<and> (\<forall>c\<in>C. \<exists>q st d h. c = FakePtr q \<and> Query fops c t0 = Inr st \<and> State st \<noteq> Stopped
                \<and> d \<noteq> name (objs t0 q) \<and> (d, name (objs t0 q)) \<in> declared fops t0
                \<and> testMgr_OpenService d t0 = Inr h \<and> h \<in> C)"
  note F1 = a [THEN conjunct1]
    and F2 = a [THEN conjunct2, THEN conjunct1]
    and F3 = a [THEN conjunct2, THEN conjunct2, THEN conjunct1]
    and F4 = a [THEN conjunct2, THEN conjunct2, THEN conjunct2, THEN conjunct1]
    and WF = a [THEN conjunct2, THEN conjunct2, THEN conjunct2, THEN conjunct2, THEN conjunct1]
    and CY = a [THEN conjunct2, THEN conjunct2, THEN conjunct2, THEN conjunct2, THEN conjunct2]
  have i: "cyc_inv fops C t0 t0"
    by (simp add: cyc_inv_def same_frame_refl)
  show "\<forall>c\<in>C. \<forall>fuel. testMgr_EnsureServiceState fuel fops c Stopped t0 = None"
  proof (intro ballI allI)
    fix c fuel assume c: "c \<in> C"
    with CY obtain q where q: "c = FakePtr q" by blast
    from c q have "FakePtr q \<in> C" by simp
    from testMgr_cycle_diverges_any_order [OF F1 F2 F3 F4 WF CY, of fuel, THEN spec, THEN spec,
           THEN mp, OF i, THEN conjunct1, THEN mp, OF this]
    show "testMgr_EnsureServiceState fuel fops c Stopped t0 = None"
      unfolding q .
  qed
next
  assume a: "Inv w0
      \<and> (\<forall>d w. Inv w \<longrightarrow> Inv (snd (OpenService api d w)))
      \<and> (\<forall>h w. Inv w \<longrightarrow> Inv (fst (snd (manager_listDependentServices api h w))))
      \<and> (\<forall>s w. Inv w \<longrightarrow> Inv (snd (Control ops s Stop w)))
      \<and> (\<forall>w. Inv w \<longrightarrow> Inv (delay api w))
      \<and> (\<forall>h w. Inv w
            \<longrightarrow> fst (manager_listDependentServices api h w) \<noteq> Inl PanicIndexOutOfRange)
      \<and> (\<forall>h w deps w1 att d w' hs w2. Inv w
              \<longrightarrow> manager_listDependentServices api h w = (Inr deps, w1, att)
              \<longrightarrow> d \<in> set deps \<longrightarrow> Inv w'
              \<longrightarrow> OpenService api d w' = (Inr (MgrService hs), w2) \<longrightarrow> rk hs < rk h)"
  note i = a [THEN conjunct1]
    and O = a [THEN conjunct2, THEN conjunct1]
    and L = a [THEN conjunct2, THEN conjunct2, THEN conjunct1]
    and K = a [THEN conjunct2, THEN conjunct2, THEN conjunct2, THEN conjunct1]
    and D = a [THEN conjunct2, THEN conjunct2, THEN conjunct2, THEN conjunct2, THEN conjunct1]
    and NP = a [THEN conjunct2, THEN conjunct2, THEN conjunct2, THEN conjunct2, THEN conjunct2,
                THEN conjunct1]
    and R = a [THEN conjunct2, THEN conjunct2, THEN conjunct2, THEN conjunct2, THEN conjunct2,
               THEN conjunct2]
  have r: "\<forall>h. MgrService h0 = MgrService h \<longrightarrow> rk h < Suc (rk h0)"
    by simp
  from manager_ranked_returns [OF O L K D NP R, of "Suc (rk h0)", THEN spec, THEN spec,
         THEN mp, THEN mp, OF r i]
  show "\<exists>e w' tr. manager_EnsureServiceState (Suc (Suc (rk h0))) ops api (MgrService h0)
                       Stopped w0 = Some (e, w', tr)
                     \<and> \<not> panicked tr"
    by blast
next
  assume a: "Inv w0
      \<and> (\<forall>d w. Inv w \<longrightarrow> Inv (snd (OpenService api d w)))
      \<and> (\<forall>h w. Inv w \<longrightarrow> Inv (fst (snd (manager_listDependentServices api h w))))
      \<and> (\<forall>h w. Inv w \<longrightarrow> MgrService h \<notin> S
            \<longrightarrow> Inv (snd (Control ops (MgrService h) Stop w)))
      \<and> (\<forall>w. Inv w \<longrightarrow> Inv (delay api w))
      \<and> (\<forall>d w hs w2. Inv w \<longrightarrow> OpenService api d w = (Inr hs, w2)
            \<longrightarrow> (\<exists>h. hs = MgrService h))
      \<and> (\<forall>h w. Inv w \<longrightarrow> (\<exists>st. Query ops (MgrService h) w = Inr st))
      \<and> (\<forall>h w. Inv w \<longrightarrow> (\<exists>deps. fst (manager_listDependentServices api h w) = Inr deps))
      \<and> (\<forall>h w deps w1 att d w'. Inv w
               \<longrightarrow> manager_listDependentServices api h w = (Inr deps, w1, att)
               \<longrightarrow> d \<in> set deps \<longrightarrow> Inv w' \<longrightarrow> (\<exists>hs. fst (OpenService api d w') = Inr hs))
      \<and> (\<forall>h w. Inv w \<longrightarrow> MgrService h \<notin> S \<longrightarrow>
               fst (Control ops (MgrService h) Stop w) = None
               \<and> fst (WaitForState ops (delay api) (pollBudget api) (MgrService h) Stopped
                        (snd (Control ops (MgrService h) Stop w))) = None)
      \<and> (\<forall>s\<in>S. \<forall>w. Inv w \<longrightarrow>
              (\<exists>h st deps w1 att d. s = MgrService h \<and> Query ops s w = Inr st
                 \<and> State st \<noteq> Stopped
                 \<and> manager_listDependentServices api h w = (Inr deps, w1, att)
                 \<and> d \<in> set deps
                 \<and> (\<forall>w'. Inv w' \<longrightarrow> (\<exists>hs. fst (OpenService api d w') = Inr hs \<and> hs \<in> S))))"
  note r1 = a [THEN conjunct2]
  note r2 = r1 [THEN conjunct2]
  note r3 = r2 [THEN conjunct2]
  note r4 = r3 [THEN conjunct2]
  note r5 = r4 [THEN conjunct2]
  note r6 = r5 [THEN conjunct2]
  note r7 = r6 [THEN conjunct2]
  note r8 = r7 [THEN conjunct2]
  note r9 = r8 [THEN conjunct2]
  note i = a [THEN conjunct1] and O = r1 [THEN conjunct1] and L = r2 [THEN conjunct1]
    and K = r3 [THEN conjunct1] and D = r4 [THEN conjunct1] and H = r5 [THEN conjunct1]
    and NQ = r6 [THEN conjunct1] and NL = r7 [THEN conjunct1] and NO = r8 [THEN conjunct1]
    and NC = r9 [THEN conjunct1] and M = r9 [THEN conjunct2]
  show "\<forall>s\<in>S. \<forall>fuel. manager_EnsureServiceState fuel ops api s Stopped w0 = None"
  proof (intro ballI allI)
    fix s fuel assume s: "s \<in> S"
    with M i obtain h where h: "s = MgrService h" by blast
    from s h have "MgrService h \<in> S" by simp
    from manager_cycle_diverges_any_order [OF O L K D H NQ NL NO NC M, of fuel, THEN spec,
           THEN spec, THEN mp, OF i, THEN conjunct1, THEN mp, OF this]
    show "manager_EnsureServiceState fuel ops api s Stopped w0 = None"
      unfolding h .
  qed
qed

theorem stop_recursion_without_cycle_check_witness:
  "(\<exists>N. \<forall>fuel\<ge>N. testMgr_EnsureServiceState fuel fake_ops (FakePtr 2) Stopped
                      (registry_chain Running) \<noteq> None)
   \<and> (\<exists>N. \<forall>fuel\<ge>N. testMgr_EnsureServiceState fuel fake_ops (FakePtr 0) Stopped
                        registry_self \<noteq> None)
   \<and> testMgr_listDependentServices fake_ops ''A'' registry_cycle_extra = Inr [''D'', ''B'']
   \<and> (\<forall>fuel. testMgr_EnsureServiceState fuel fake_ops (FakePtr 1) Stopped
                 registry_cycle_extra = None)
   \<and> (\<forall>fuel. testMgr_EnsureServiceState fuel fake_ops (FakePtr 2) Stopped
                 registry_cycle_extra = None)
   \<and> (\<exists>e w' tr. manager_EnsureServiceState (Suc (Suc 2)) sim_ops sim_api (MgrService 2) Stopped
                    (registry_chain Running) = Some (e, w', tr)
                  \<and> \<not> panicked tr)
   \<and> (\<forall>fuel. manager_EnsureServiceState fuel sim_ops sim_api (MgrService 1) Stopped
                 registry_cycle_extra = None)
   \<and> (\<forall>fuel. manager_EnsureServiceState fuel sim_ops sim_api (MgrService 2) Stopped
                 registry_cycle_extra = None)"
proof -
  note main = stop_recursion_without_cycle_check
  note m1 = main [THEN conjunct1]
  note m2 = main [THEN conjunct2, THEN conjunct1]
  let ?t0 = "registry_chain Running"
  let ?te = registry_cycle_extra
  have H: "\<forall>s t. same_frame fake_ops (snd (Control fake_ops s Stop t)) t"
    by (simp add: fake_Control_frame)
  have WF: "\<forall>(k, sv)\<in>set (svcs ?t0). \<forall>q. sv = FakePtr q \<longrightarrow> name (objs ?t0 q) = k"
    by (simp add: registry_defs)
  have AC: "acyclic (declared fake_ops ?t0 - Id)"
  proof (rule acyclicI_order [where f = "\<lambda>x. if x = ''A'' then 2 else if x = ''B'' then 1 else (0::nat)"])
    fix a b assume "(a, b) \<in> declared fake_ops ?t0 - Id"
    then have "(a = ''A'' \<and> b = ''B'') \<or> (a = ''B'' \<and> b = ''C'')"
      by (auto simp: declared_def fake_defs registry_defs split: if_splits)
    then show "(if b = ''A'' then 2 else if b = ''B'' then 1 else (0::nat))
               < (if a = ''A'' then 2 else if a = ''B'' then 1 else 0)"
      by auto
  qed
  have c1: "\<exists>N. \<forall>fuel\<ge>N. testMgr_EnsureServiceState fuel fake_ops (FakePtr 2) Stopped ?t0 \<noteq> None"
    by (rule m1 [THEN mp]) (intro conjI H WF AC)
  have WFs: "\<forall>(k, sv)\<in>set (svcs registry_self). \<forall>q. sv = FakePtr q
               \<longrightarrow> name (objs registry_self q) = k"
    by (simp add: registry_defs)
  have es: "declared fake_ops registry_self - Id = {}"
    by (auto simp: declared_def fake_defs registry_defs split: if_splits)
  have ACs: "acyclic (declared fake_ops registry_self - Id)"
    unfolding es by (simp add: acyclic_def)
  have c2: "\<exists>N. \<forall>fuel\<ge>N. testMgr_EnsureServiceState fuel fake_ops (FakePtr 0) Stopped
                        registry_self \<noteq> None"
    by (rule m1 [THEN mp]) (intro conjI H WFs ACs)
  let ?C = "{FakePtr 1, FakePtr 2}"
  have l5: "testMgr_listDependentServices fake_ops ''A'' ?te = Inr [''D'', ''B'']"
    by (simp add: fake_defs registry_defs)
  have F2: "\<forall>s t c. c \<in> ?C \<longrightarrow> s \<notin> ?C
            \<longrightarrow> Query fake_ops c (snd (Control fake_ops s Stop t)) = Query fake_ops c t"
    by (auto simp: fake_ops_def fake_Query_def fake_Control_def fake_setState_def
             split: Service.splits)
  have F3: "\<forall>q t. same_frame fake_ops t ?te \<longrightarrow> (\<exists>st. Query fake_ops (FakePtr q) t = Inr st)"
    by (simp add: fake_ops_def fake_Query_def)
  have F4: "\<forall>q t. same_frame fake_ops t ?te \<longrightarrow> fst (Control fake_ops (FakePtr q) Stop t) = None"
    by (simp add: fake_ops_def fake_Control_def)
  have WF5: "\<forall>(k, sv)\<in>set (svcs ?te). \<exists>q cfg. sv = FakePtr q \<and> name (objs ?te q) = k
                  \<and> GetConfig fake_ops sv ?te = Inr cfg"
    by (simp add: registry_defs fake_ops_def fake_Config_def)
  have b1: "FakePtr 1 = FakePtr 1 \<and> Query fake_ops (FakePtr 1) ?te = Inr \<lparr>State = Running\<rparr>
            \<and> State \<lparr>State = Running\<rparr> \<noteq> Stopped
            \<and> ''B'' \<noteq> name (objs ?te 1)
            \<and> (''B'', name (objs ?te 1)) \<in> declared fake_ops ?te
            \<and> testMgr_OpenService ''B'' ?te = Inr (FakePtr 2) \<and> FakePtr 2 \<in> ?C"
    by (simp add: declared_def fake_defs registry_defs state_defs)
  have b2: "FakePtr 2 = FakePtr 2 \<and> Query fake_ops (FakePtr 2) ?te = Inr \<lparr>State = Running\<rparr>
            \<and> State \<lparr>State = Running\<rparr> \<noteq> Stopped
            \<and> ''A'' \<noteq> name (objs ?te 2)
            \<and> (''A'', name (objs ?te 2)) \<in> declared fake_ops ?te
            \<and> testMgr_OpenService ''A'' ?te = Inr (FakePtr 1) \<and> FakePtr 1 \<in> ?C"
    by (simp add: declared_def fake_defs registry_defs state_defs)
  have CY5: "\<forall>c\<in>?C. \<exists>q st d h. c = FakePtr q \<and> Query fake_ops c ?te = Inr st
                \<and> State st \<noteq> Stopped
                \<and> d \<noteq> name (objs ?te q) \<and> (d, name (objs ?te q)) \<in> declared fake_ops ?te
                \<and> testMgr_OpenService d ?te = Inr h \<and> h \<in> ?C"
  proof
    fix c assume "c \<in> ?C"
    then consider "c = FakePtr 1" | "c = FakePtr 2" by blast
    then show "\<exists>q st d h. c = FakePtr q \<and> Query fake_ops c ?te = Inr st
                \<and> State st \<noteq> Stopped
                \<and> d \<noteq> name (objs ?te q) \<and> (d, name (objs ?te q)) \<in> declared fake_ops ?te
                \<and> testMgr_OpenService d ?te = Inr h \<and> h \<in> ?C"
    proof cases
      case 1
      with b1 show ?thesis by blast
    next
      case 2
      with b2 show ?thesis by blast
    qed
  qed
  have c34: "\<forall>c\<in>?C. \<forall>fuel. testMgr_EnsureServiceState fuel fake_ops c Stopped ?te = None"
    by (rule m2 [THEN mp]) (intro conjI H F2 F3 F4 WF5 CY5)
  then have c3: "\<forall>fuel. testMgr_EnsureServiceState fuel fake_ops (FakePtr 1) Stopped ?te = None"
    and c4: "\<forall>fuel. testMgr_EnsureServiceState fuel fake_ops (FakePtr 2) Stopped ?te = None"
    by blast+
  let ?Inv = "\<lambda>w. same_frame fake_ops w ?t0"
  have len0: "length (sim_dependents h w) \<le> 2" if "?Inv w" for h w
    using sim_dependents_frame [OF that, of h] by (simp add: chain_dependents)
  have list0: "\<exists>att. manager_listDependentServices sim_api h w
                  = (Inr (sim_dependents h ?t0), w, att)" if "?Inv w" for h w
    using sim_list_short [OF len0 [OF that], of h] sim_dependents_frame [OF that, of h]
    by simp
  have NP: "\<forall>h w. ?Inv w
            \<longrightarrow> fst (manager_listDependentServices sim_api h w) \<noteq> Inl PanicIndexOutOfRange"
  proof (intro allI impI)
    fix h w assume "?Inv w"
    from list0 [OF this, of h]
    show "fst (manager_listDependentServices sim_api h w) \<noteq> Inl PanicIndexOutOfRange"
      by auto
  qed
  have R: "\<forall>h w deps w1 att d w' hs w2. ?Inv w
              \<longrightarrow> manager_listDependentServices sim_api h w = (Inr deps, w1, att)
              \<longrightarrow> d \<in> set deps \<longrightarrow> ?Inv w'
              \<longrightarrow> OpenService sim_api d w' = (Inr (MgrService hs), w2) \<longrightarrow> hs < h"
  proof (intro allI impI)
    fix h w deps w1 att d w' hs w2
    assume i: "?Inv w" and l: "manager_listDependentServices sim_api h w = (Inr deps, w1, att)"
      and d: "d \<in> set deps" and i': "?Inv w'"
      and o: "OpenService sim_api d w' = (Inr (MgrService hs), w2)"
    from list0 [OF i, of h] l have "deps = sim_dependents h ?t0" by auto
    with d have "(h = 2 \<and> d = ''B'') \<or> (h = 1 \<and> d = ''A'')"
      by (auto simp: chain_dependents split: if_splits)
    with chain_open [OF i' o] show "hs < h" by auto
  qed
  have hyp3: "?Inv ?t0
      \<and> (\<forall>d w. ?Inv w \<longrightarrow> ?Inv (snd (OpenService sim_api d w)))
      \<and> (\<forall>h w. ?Inv w \<longrightarrow> ?Inv (fst (snd (manager_listDependentServices sim_api h w))))
      \<and> (\<forall>s w. ?Inv w \<longrightarrow> ?Inv (snd (Control sim_ops s Stop w)))
      \<and> (\<forall>w. ?Inv w \<longrightarrow> ?Inv (delay sim_api w))
      \<and> (\<forall>h w. ?Inv w
            \<longrightarrow> fst (manager_listDependentServices sim_api h w) \<noteq> Inl PanicIndexOutOfRange)
      \<and> (\<forall>h w deps w1 att d w' hs w2. ?Inv w
              \<longrightarrow> manager_listDependentServices sim_api h w = (Inr deps, w1, att)
              \<longrightarrow> d \<in> set deps \<longrightarrow> ?Inv w'
              \<longrightarrow> OpenService sim_api d w' = (Inr (MgrService hs), w2) \<longrightarrow> hs < h)"
    by (intro conjI R NP allI impI sim_Control_frame sim_delay_frame)
       (simp_all only: same_frame_refl sim_open_world sim_list_world)
  from main [where Inv = ?Inv and rk = "\<lambda>h. h" and ?h0.0 = 2,
             THEN conjunct2, THEN conjunct2, THEN conjunct1, THEN mp, OF hyp3]
  have c5: "\<exists>e w' tr. manager_EnsureServiceState (Suc (Suc 2)) sim_ops sim_api (MgrService 2)
                         Stopped ?t0 = Some (e, w', tr)
                       \<and> \<not> panicked tr" .
  let ?S = "{MgrService 1, MgrService 2}"
  let ?I = "\<lambda>w. same_frame fake_ops w ?te \<and> State (status (objs w 1)) = Running
                 \<and> State (status (objs w 2)) = Running"
  have I0: "?I ?te"
    by (simp add: same_frame_refl registry_defs)
  have IO: "\<forall>d w. ?I w \<longrightarrow> ?I (snd (OpenService sim_api d w))"
    by (simp only: sim_open_world) simp
  have IL: "\<forall>h w. ?I w \<longrightarrow> ?I (fst (snd (manager_listDependentServices sim_api h w)))"
    by (simp only: sim_list_world) simp
  have IK: "\<forall>h w. ?I w \<longrightarrow> MgrService h \<notin> ?S
            \<longrightarrow> ?I (snd (Control sim_ops (MgrService h) Stop w))"
  proof (intro allI impI)
    fix h w assume i: "?I w" and n: "MgrService h \<notin> ?S"
    from i have "same_frame fake_ops (snd (Control sim_ops (MgrService h) Stop w)) ?te"
      by (blast intro: sim_Control_frame)
    moreover from i n have "State (status (objs (snd (Control sim_ops (MgrService h) Stop w)) 1))
                              = Running
          \<and> State (status (objs (snd (Control sim_ops (MgrService h) Stop w)) 2)) = Running"
      by (simp add: sim_ops_def sim_Control_def fake_setState_def)
    ultimately show "?I (snd (Control sim_ops (MgrService h) Stop w))"
      by blast
  qed
  have ID: "\<forall>w. ?I w \<longrightarrow> ?I (delay sim_api w)"
  proof (intro allI impI)
    fix w assume i: "?I w"
    then have "same_frame fake_ops (delay sim_api w) ?te"
      by (blast intro: sim_delay_frame)
    moreover from i have "State (status (objs (delay sim_api w) 1)) = Running
          \<and> State (status (objs (delay sim_api w) 2)) = Running"
      by (simp add: sim_api_def sim_delay_def settle_def state_defs)
    ultimately show "?I (delay sim_api w)"
      by blast
  qed
  have IH: "\<forall>d w hs w2. ?I w \<longrightarrow> OpenService sim_api d w = (Inr hs, w2)
            \<longrightarrow> (\<exists>h. hs = MgrService h)"
    by (blast dest: sim_open_handle)
  have INQ: "\<forall>h w. ?I w \<longrightarrow> (\<exists>st. Query sim_ops (MgrService h) w = Inr st)"
    by (simp add: sim_ops_def sim_Query_def)
  have len1: "length (sim_dependents h w) \<le> 2" if "?I w" for h w
    using sim_dependents_frame [of w ?te h] that by (simp add: cycle_extra_dependents)
  have list1: "\<exists>att. manager_listDependentServices sim_api h w
                  = (Inr (sim_dependents h ?te), w, att)" if "?I w" for h w
    using sim_list_short [OF len1 [OF that], of h] sim_dependents_frame [of w ?te h] that
    by simp
  have INL: "\<forall>h w. ?I w \<longrightarrow> (\<exists>deps. fst (manager_listDependentServices sim_api h w) = Inr deps)"
  proof (intro allI impI)
    fix h w assume "?I w"
    from list1 [OF this, of h]
    show "\<exists>deps. fst (manager_listDependentServices sim_api h w) = Inr deps"
      by auto
  qed
  have opn: "OpenService sim_api ''D'' w = (Inr (MgrService 0), w)
     \<and> OpenService sim_api ''A'' w = (Inr (MgrService 1), w)
     \<and> OpenService sim_api ''B'' w = (Inr (MgrService 2), w)" if "?I w" for w
    using that by (intro cycle_extra_open) (simp add: same_frame_def)
  have INO: "\<forall>h w deps w1 att d w'. ?I w
               \<longrightarrow> manager_listDependentServices sim_api h w = (Inr deps, w1, att)
               \<longrightarrow> d \<in> set deps \<longrightarrow> ?I w' \<longrightarrow> (\<exists>hs. fst (OpenService sim_api d w') = Inr hs)"
  proof (intro allI impI)
    fix h w deps w1 att d w'
    assume i: "?I w" and l: "manager_listDependentServices sim_api h w = (Inr deps, w1, att)"
      and d: "d \<in> set deps" and i': "?I w'"
    from list1 [OF i, of h] l have "deps = sim_dependents h ?te" by auto
    with d have "d = ''D'' \<or> d = ''B'' \<or> d = ''A''"
      by (auto simp: cycle_extra_dependents split: if_splits)
    with opn [OF i'] show "\<exists>hs. fst (OpenService sim_api d w') = Inr hs"
      by auto
  qed
  have INC: "\<forall>h w. ?I w \<longrightarrow> MgrService h \<notin> ?S \<longrightarrow>
               fst (Control sim_ops (MgrService h) Stop w) = None
               \<and> fst (WaitForState sim_ops (delay sim_api) (pollBudget sim_api) (MgrService h)
                        Stopped (snd (Control sim_ops (MgrService h) Stop w))) = None"
    by (intro allI impI sim_stop_completes)
  have IM: "\<forall>s\<in>?S. \<forall>w. ?I w \<longrightarrow>
              (\<exists>h st deps w1 att d. s = MgrService h \<and> Query sim_ops s w = Inr st
                 \<and> State st \<noteq> Stopped
                 \<and> manager_listDependentServices sim_api h w = (Inr deps, w1, att)
                 \<and> d \<in> set deps
                 \<and> (\<forall>w'. ?I w' \<longrightarrow> (\<exists>hs. fst (OpenService sim_api d w') = Inr hs \<and> hs \<in> ?S)))"
  proof (intro ballI allI impI)
    fix s w assume s: "s \<in> ?S" and i: "?I w"
    have ns: "Running \<noteq> Stopped" by (simp add: state_defs)
    from s consider "s = MgrService 1" | "s = MgrService 2" by blast
    then show "\<exists>h st deps w1 att d. s = MgrService h \<and> Query sim_ops s w = Inr st
                 \<and> State st \<noteq> Stopped
                 \<and> manager_listDependentServices sim_api h w = (Inr deps, w1, att)
                 \<and> d \<in> set deps
                 \<and> (\<forall>w'. ?I w' \<longrightarrow> (\<exists>hs. fst (OpenService sim_api d w') = Inr hs \<and> hs \<in> ?S))"
    proof cases
      case 1
      from list1 [OF i, of 1] obtain att where
        l: "manager_listDependentServices sim_api 1 w = (Inr [''D'', ''B''], w, att)"
        by (auto simp: cycle_extra_dependents)
      have "s = MgrService 1 \<and> Query sim_ops s w = Inr (status (objs w 1))
                 \<and> State (status (objs w 1)) \<noteq> Stopped
                 \<and> manager_listDependentServices sim_api 1 w = (Inr [''D'', ''B''], w, att)
                 \<and> ''B'' \<in> set [''D'', ''B'']
                 \<and> (\<forall>w'. ?I w' \<longrightarrow> (\<exists>hs. fst (OpenService sim_api ''B'' w') = Inr hs \<and> hs \<in> ?S))"
        using 1 i l ns opn by (simp add: sim_ops_def sim_Query_def)
      then show ?thesis by blast
    next
      case 2
      from list1 [OF i, of 2] obtain att where
        l: "manager_listDependentServices sim_api 2 w = (Inr [''A''], w, att)"
        by (auto simp: cycle_extra_dependents)
      have "s = MgrService 2 \<and> Query sim_ops s w = Inr (status (objs w 2))
                 \<and> State (status (objs w 2)) \<noteq> Stopped
                 \<and> manager_listDependentServices sim_api 2 w = (Inr [''A''], w, att)
                 \<and> ''A'' \<in> set [''A'']
                 \<and> (\<forall>w'. ?I w' \<longrightarrow> (\<exists>hs. fst (OpenService sim_api ''A'' w') = Inr hs \<and> hs \<in> ?S))"
        using 2 i l ns opn by (simp add: sim_ops_def sim_Query_def)
      then show ?thesis by blast
    qed
  qed
  have c67: "\<forall>s\<in>?S. \<forall>fuel. manager_EnsureServiceState fuel sim_ops sim_api s Stopped ?te = None"
    by (rule main [where Inv = ?I, THEN conjunct2, THEN conjunct2, THEN conjunct2, THEN mp])
       (intro conjI I0 IO IL IK ID IH INQ INL INO INC IM)
  then have c6: "\<forall>fuel. manager_EnsureServiceState fuel sim_ops sim_api (MgrService 1) Stopped
                   ?te = None"
    and c7: "\<forall>fuel. manager_EnsureServiceState fuel sim_ops sim_api (MgrService 2) Stopped
                   ?te = None"
    by blast+
  from c1 c2 l5 c3 c4 c5 c6 c7 show ?thesis by (intro conjI)
qed

end
